theory Spec2Isabelle
  imports Complex_Main "HOL-Library.AList" "HOL-Library.Multiset"
begin

section \<open>Order matching and aggregation: a shallow embedding\<close>

text \<open>
  The development embeds the matching-and-aggregation engine of the order tool
  (\<^verbatim>\<open>utils/excelProcessor.ts\<close>), the weight helpers of the main component
  (\<^verbatim>\<open>App.tsx\<close>), the per-item weight of \<^verbatim>\<open>DetailedMatchView.tsx\<close> and the
  backup loader (\<^verbatim>\<open>utils/backupManager.ts\<close>).

  Conventions.
  \<^item> A JavaScript string is the list of its UTF-16 code units.
  \<^item> A JavaScript number that the program obtains from \<^verbatim>\<open>parseInt\<close> or from a JSON
    integer is an \<open>int\<close>; the falsy number is \<open>0\<close>. The sums and products that the
    aggregation forms of such numbers are rounded as binary64 rounds them. Infinity
    and NaN are not represented. Unit weights come from \<^verbatim>\<open>parseFloat\<close>; they are
    rationals and their sums are not rounded, and no statement below depends on them.
  \<^item> The two services of the JavaScript runtime whose tables are not part of the
    program, \<^verbatim>\<open>String.prototype.toLowerCase\<close> and
    \<^verbatim>\<open>String.prototype.localeCompare\<close>, are parameters collected in a record.
  \<^item> A plain JavaScript object used as a dictionary is the association list of its own
    properties in creation order, together with the names it inherits from
    \<^verbatim>\<open>Object.prototype\<close>.
\<close>

subsection \<open>Strings and the runtime\<close>

type_synonym jsstring = "nat list"

definition ascii :: "string \<Rightarrow> jsstring" where
  "ascii s = map of_char s"

record js_runtime =
  toLowerCase :: "jsstring \<Rightarrow> jsstring"
  localeCompare :: "jsstring \<Rightarrow> jsstring \<Rightarrow> int"

text \<open>
  The code units that \<^verbatim>\<open>String.prototype.trim\<close> strips: ECMAScript WhiteSpace
  (TAB, VT, FF, ZWNBSP and the space separators) and LineTerminator (LF, CR, LS, PS).
\<close>

definition isWhiteSpace :: "nat \<Rightarrow> bool" where
  "isWhiteSpace c \<longleftrightarrow>
     c \<in> set [0x09, 0x0B, 0x0C, 0xFEFF, 0x20, 0xA0, 0x1680, 0x202F, 0x205F, 0x3000,
              0x0A, 0x0D, 0x2028, 0x2029]
     \<or> (0x2000 \<le> c \<and> c \<le> 0x200A)"

definition trim :: "jsstring \<Rightarrow> jsstring" where
  "trim s = rev (dropWhile isWhiteSpace (rev (dropWhile isWhiteSpace s)))"

subsection \<open>Data model (\<^verbatim>\<open>types.ts\<close>)\<close>

text \<open>
  Field names carry a prefix (\<open>o_\<close>, \<open>g_\<close>, \<open>p_\<close>) because the three
  interfaces share names such as \<^verbatim>\<open>productName\<close> and \<^verbatim>\<open>quantity\<close>. The
  fields \<^verbatim>\<open>originalRowData\<close> and \<^verbatim>\<open>excelFormat\<close> of an order are never read by
  the functions embedded here and are left out.
\<close>

record OrderData =
  o_seller :: jsstring
  o_productNumber :: jsstring
  o_productName :: jsstring
  o_optionName :: jsstring
  o_quantity :: int
  o_paymentAmount :: int
  o_settlementAmount :: int
  o_purchaseAmount :: int
  o_weight :: rat
  o_stockLocation :: jsstring
  o_boxSpec :: jsstring

record MatchingRuleGroup =
  g_productName :: jsstring
  g_stock :: int
  g_quantityWeight :: int
  g_rules :: "jsstring list"
  g_ruleWeights :: "(jsstring \<times> int) list option"
  g_id :: "jsstring option"

record ProcessedData =
  p_productName :: jsstring
  p_printName :: jsstring
  p_isMatched :: bool
  p_salesAmount :: int
  p_settlementAmount :: int
  p_orderCount :: int
  p_quantity :: int
  p_managementCode :: jsstring
  p_purchaseAmount :: int
  p_weight :: rat
  p_stockLocation :: jsstring
  p_boxSpec :: jsstring
  p_stock :: "int option"
  p_originalOrder :: "OrderData option"
  p_matchedRuleId :: "jsstring option"

subsection \<open>Identifier normalisation\<close>

text \<open>
  \<^verbatim>\<open>normalizeFieldValue\<close> takes \<^verbatim>\<open>string | undefined | null\<close>; \<open>None\<close> stands for
  the two non-strings. The guard \<^verbatim>\<open>!value\<close> also catches the empty string.
\<close>

definition normalizeFieldValue :: "js_runtime \<Rightarrow> jsstring option \<Rightarrow> jsstring" where
  "normalizeFieldValue rt v =
     (case v of
        None \<Rightarrow> []
      | Some s \<Rightarrow> if s = [] then [] else toLowerCase rt (trim s))"

definition createOrderIdentifier :: "js_runtime \<Rightarrow> OrderData \<Rightarrow> jsstring" where
  "createOrderIdentifier rt order =
     (let normalizedSeller = normalizeFieldValue rt (Some (o_seller order));
          normalizedProductNumber = normalizeFieldValue rt (Some (o_productNumber order));
          normalizedProductName = normalizeFieldValue rt (Some (o_productName order));
          normalizedOptionName = normalizeFieldValue rt (Some (o_optionName order))
      in normalizedSeller @ [0x7C] @ normalizedProductNumber @ [0x7C]
           @ normalizedProductName @ [0x7C] @ normalizedOptionName)"

subsection \<open>Rule lookup\<close>

text \<open>
  The \<^verbatim>\<open>for ... of\<close> loop of \<^verbatim>\<open>findMatchingRule\<close> with its early return, as a
  recursion over the groups; \<^verbatim>\<open>Array.prototype.includes\<close> on strings is membership.
\<close>

fun scanGroups :: "jsstring \<Rightarrow> MatchingRuleGroup list \<Rightarrow> (MatchingRuleGroup \<times> jsstring) option" where
  "scanGroups orderIdentifier [] = None"
| "scanGroups orderIdentifier (grp # rest) =
     (if orderIdentifier \<in> set (g_rules grp) then Some (grp, orderIdentifier)
      else scanGroups orderIdentifier rest)"

definition findMatchingRule ::
  "js_runtime \<Rightarrow> OrderData \<Rightarrow> MatchingRuleGroup list \<Rightarrow> (MatchingRuleGroup \<times> jsstring) option" where
  "findMatchingRule rt order ruleGroups = scanGroups (createOrderIdentifier rt order) ruleGroups"

subsection \<open>Weight resolution\<close>

text \<open>
  The expression of \<^verbatim>\<open>processOrders\<close>
  \<^verbatim>\<open>rule.ruleWeights && rule.ruleWeights[ruleId] ? rule.ruleWeights[ruleId] : rule.quantityWeight || 1\<close>.
  The conditional operator binds weaker than \<^verbatim>\<open>&&\<close> and \<^verbatim>\<open>||\<close>. Both tests are
  truthiness tests: a number passes when it is not \<open>0\<close>.
\<close>

definition truthy :: "int \<Rightarrow> bool" where
  "truthy n \<longleftrightarrow> n \<noteq> 0"

definition ruleWeightAt :: "MatchingRuleGroup \<Rightarrow> jsstring \<Rightarrow> int option" where
  "ruleWeightAt rule ruleId =
     (case g_ruleWeights rule of None \<Rightarrow> None | Some ws \<Rightarrow> map_of ws ruleId)"

definition resolveWeight :: "MatchingRuleGroup \<Rightarrow> jsstring \<Rightarrow> int" where
  "resolveWeight rule ruleId =
     (case ruleWeightAt rule ruleId of
        Some w \<Rightarrow> if truthy w then w
                  else if truthy (g_quantityWeight rule) then g_quantityWeight rule else 1
      | None \<Rightarrow> if truthy (g_quantityWeight rule) then g_quantityWeight rule else 1)"


subsection \<open>Plain objects used as dictionaries\<close>

text \<open>
  \<^verbatim>\<open>processedData\<close> is created by the literal \<^verbatim>\<open>{}\<close>, so a read
  \<^verbatim>\<open>processedData[key]\<close> that finds no own property continues in
  \<^verbatim>\<open>Object.prototype\<close>. Every property found there is a function or an object,
  hence truthy. A write \<^verbatim>\<open>processedData[key].f = v\<close> through such a read lands on
  the inherited value and leaves \<^verbatim>\<open>processedData\<close> without an own property.

  The names below are the properties of \<^verbatim>\<open>Object.prototype\<close> in a browser. Writes
  through the name \<^verbatim>\<open>__proto__\<close> land on \<^verbatim>\<open>Object.prototype\<close> itself and can leave
  the strings \<^verbatim>\<open>stockLocation\<close> and \<^verbatim>\<open>boxSpec\<close> there; a later group of one of
  these two names then makes the pass throw instead of returning rows. The model does
  not follow that case: it keeps the set of inherited names fixed.
\<close>

definition objectPrototypeKeys :: "jsstring list" where
  "objectPrototypeKeys = map ascii
     [''constructor'', ''__defineGetter__'', ''__defineSetter__'', ''hasOwnProperty'',
      ''__lookupGetter__'', ''__lookupSetter__'', ''isPrototypeOf'',
      ''propertyIsEnumerable'', ''toString'', ''valueOf'', ''__proto__'',
      ''toLocaleString'']"

text \<open>
  \<^verbatim>\<open>Object.values\<close> lists the own properties whose names are array indices
  (canonical decimal numerals below \<open>2^32 - 1\<close>) first, in ascending numeric order, and
  then the remaining names in creation order.
\<close>

definition isDigit :: "nat \<Rightarrow> bool" where
  "isDigit c \<longleftrightarrow> 0x30 \<le> c \<and> c \<le> 0x39"

definition digitsValue :: "jsstring \<Rightarrow> nat" where
  "digitsValue s = foldl (\<lambda>n c. 10 * n + (c - 0x30)) 0 s"

definition arrayIndex :: "jsstring \<Rightarrow> nat option" where
  "arrayIndex s =
     (if s \<noteq> [] \<and> list_all isDigit s \<and> (length s = 1 \<or> hd s \<noteq> 0x30)
         \<and> digitsValue s < 2 ^ 32 - 1
      then Some (digitsValue s) else None)"

definition objectValues :: "(jsstring \<times> 'a) list \<Rightarrow> 'a list" where
  "objectValues obj =
     map snd (sort_key (\<lambda>(k, v). the (arrayIndex k)) (filter (\<lambda>(k, v). arrayIndex k \<noteq> None) obj)
              @ filter (\<lambda>(k, v). arrayIndex k = None) obj)"

subsection \<open>Integer arithmetic in binary64\<close>

text \<open>
  The source adds and multiplies numbers of type \<^verbatim>\<open>number\<close>. On integers the result is
  the exact integer rounded to 53 significant bits, ties to the even significand; an
  integer of magnitude below \<open>2^53\<close> is kept as it is. \<open>shiftOf n\<close> is the number of
  low bits that do not fit.
\<close>

function shiftOf :: "nat \<Rightarrow> nat" where
  "shiftOf n = (if n < 2 ^ 53 then 0 else Suc (shiftOf (n div 2)))"
  by pat_completeness auto
termination
  by (relation "measure id") auto

declare shiftOf.simps [simp del]

definition binary64 :: "int \<Rightarrow> int" where
  "binary64 x =
     (if \<bar>x\<bar> < 2 ^ 53 then x
      else (let n = nat \<bar>x\<bar>;
                e = shiftOf n;
                q = n div 2 ^ e;
                r = n mod 2 ^ e;
                m = (if 2 ^ e < 2 * r \<or> (2 * r = 2 ^ e \<and> odd q) then q + 1 else q)
            in sgn x * int (m * 2 ^ e)))"

subsection \<open>Aggregation (\<^verbatim>\<open>processOrders\<close>)\<close>

definition matchedPrefix :: jsstring where
  "matchedPrefix = [49688, 51665, 51452, 47928, 45]"

definition unmatchedPrefix :: jsstring where
  "unmatchedPrefix = [48120, 47588, 52845, 45]"

definition insufficientInfo :: jsstring where
  "insufficientInfo = [51221, 48372, 48512, 51313]"

definition joinNonEmpty :: "jsstring list \<Rightarrow> jsstring" where
  "joinNonEmpty parts =
     (case filter (\<lambda>s. s \<noteq> []) parts of
        [] \<Rightarrow> []
      | p # ps \<Rightarrow> foldl (\<lambda>acc s. acc @ [0x20, 0x2F, 0x20] @ s) p ps)"

definition newMatchedRow :: "MatchingRuleGroup \<Rightarrow> ProcessedData" where
  "newMatchedRow rule =
     \<lparr> p_productName = matchedPrefix @ g_productName rule,
       p_printName = g_productName rule,
       p_isMatched = True,
       p_salesAmount = 0, p_settlementAmount = 0, p_orderCount = 0, p_quantity = 0,
       p_managementCode = [], p_purchaseAmount = 0, p_weight = 0,
       p_stockLocation = [], p_boxSpec = [], p_stock = Some (g_stock rule),
       p_originalOrder = None,
       p_matchedRuleId = g_id rule \<rparr>"

definition newUnmatchedRow :: "jsstring \<Rightarrow> OrderData \<Rightarrow> ProcessedData" where
  "newUnmatchedRow key order =
     (let printName = joinNonEmpty [o_seller order, o_productName order, o_optionName order]
      in \<lparr> p_productName = key,
           p_printName = (if printName \<noteq> [] then printName else insufficientInfo),
           p_isMatched = False,
           p_salesAmount = 0, p_settlementAmount = 0, p_orderCount = 0, p_quantity = 0,
           p_managementCode = [], p_purchaseAmount = 0, p_weight = 0,
           p_stockLocation = o_stockLocation order, p_boxSpec = o_boxSpec order,
           p_stock = None,
           p_originalOrder = Some order,
           p_matchedRuleId = None \<rparr>)"

definition addMatched :: "OrderData \<Rightarrow> int \<Rightarrow> ProcessedData \<Rightarrow> ProcessedData" where
  "addMatched order weight row =
     (let calculatedQuantity = binary64 (o_quantity order * weight);
          r1 = row\<lparr> p_quantity := binary64 (p_quantity row + calculatedQuantity),
                    p_salesAmount := binary64 (p_salesAmount row + o_paymentAmount order),
                    p_settlementAmount :=
                      binary64 (p_settlementAmount row + o_settlementAmount order),
                    p_orderCount := binary64 (p_orderCount row + 1),
                    p_purchaseAmount := binary64 (p_purchaseAmount row + o_purchaseAmount order),
                    p_weight := p_weight row + o_weight order * of_int (o_quantity order) \<rparr>;
          r2 = (if p_stockLocation r1 = [] \<and> o_stockLocation order \<noteq> []
                then r1\<lparr> p_stockLocation := o_stockLocation order \<rparr> else r1)
      in if p_boxSpec r2 = [] \<and> o_boxSpec order \<noteq> []
         then r2\<lparr> p_boxSpec := o_boxSpec order \<rparr> else r2)"

definition addUnmatched :: "OrderData \<Rightarrow> ProcessedData \<Rightarrow> ProcessedData" where
  "addUnmatched order row =
     row\<lparr> p_quantity := binary64 (p_quantity row + o_quantity order),
          p_salesAmount := binary64 (p_salesAmount row + o_paymentAmount order),
          p_settlementAmount := binary64 (p_settlementAmount row + o_settlementAmount order),
          p_orderCount := binary64 (p_orderCount row + 1),
          p_purchaseAmount := binary64 (p_purchaseAmount row + o_purchaseAmount order),
          p_weight := p_weight row + o_weight order * of_int (o_quantity order) \<rparr>"

text \<open>
  \<^verbatim>\<open>if (!processedData[key]) processedData[key] = fresh; processedData[key].f += ...\<close>:
  an own row is updated in place, an inherited name swallows the update, and otherwise
  the fresh row is appended and updated.
\<close>

definition accumulate ::
  "jsstring \<Rightarrow> ProcessedData \<Rightarrow> (ProcessedData \<Rightarrow> ProcessedData)
     \<Rightarrow> (jsstring \<times> ProcessedData) list \<Rightarrow> (jsstring \<times> ProcessedData) list" where
  "accumulate key fresh upd processedData =
     (case map_of processedData key of
        Some row \<Rightarrow> AList.update key (upd row) processedData
      | None \<Rightarrow> if key \<in> set objectPrototypeKeys then processedData
                else processedData @ [(key, upd fresh)])"

definition processOrder ::
  "js_runtime \<Rightarrow> MatchingRuleGroup list \<Rightarrow> (jsstring \<times> ProcessedData) list \<Rightarrow> OrderData
     \<Rightarrow> (jsstring \<times> ProcessedData) list" where
  "processOrder rt ruleGroups processedData order =
     (case findMatchingRule rt order ruleGroups of
        Some (rule, ruleId) \<Rightarrow>
          (let key = g_productName rule;
               weight = resolveWeight rule ruleId
           in accumulate key (newMatchedRow rule) (addMatched order weight) processedData)
      | None \<Rightarrow>
          (let orderIdentifier = createOrderIdentifier rt order;
               key = unmatchedPrefix @ orderIdentifier
           in accumulate key (newUnmatchedRow key order) (addUnmatched order) processedData))"

text \<open>
  The comparator handed to \<^verbatim>\<open>Array.prototype.sort\<close>. The sort is specified for
  consistent comparators only, and is stable; for those every implementation returns
  the list that stable insertion returns.
\<close>

definition rowCompare :: "js_runtime \<Rightarrow> ProcessedData \<Rightarrow> ProcessedData \<Rightarrow> int" where
  "rowCompare rt a b =
     (if p_isMatched a \<and> \<not> p_isMatched b then - 1
      else if \<not> p_isMatched a \<and> p_isMatched b then 1
      else localeCompare rt (p_printName a) (p_printName b))"

fun insertRow :: "('a \<Rightarrow> 'a \<Rightarrow> int) \<Rightarrow> 'a \<Rightarrow> 'a list \<Rightarrow> 'a list" where
  "insertRow cmp x [] = [x]"
| "insertRow cmp x (y # ys) = (if cmp x y \<le> 0 then x # y # ys else y # insertRow cmp x ys)"

definition sortRows :: "('a \<Rightarrow> 'a \<Rightarrow> int) \<Rightarrow> 'a list \<Rightarrow> 'a list" where
  "sortRows cmp xs = foldr (insertRow cmp) xs []"

definition aggregate ::
  "js_runtime \<Rightarrow> OrderData list \<Rightarrow> MatchingRuleGroup list \<Rightarrow> (jsstring \<times> ProcessedData) list" where
  "aggregate rt orders ruleGroups = foldl (processOrder rt ruleGroups) [] orders"

definition processOrders ::
  "js_runtime \<Rightarrow> OrderData list \<Rightarrow> MatchingRuleGroup list \<Rightarrow> ProcessedData list" where
  "processOrders rt orders ruleGroups =
     sortRows (rowCompare rt) (objectValues (aggregate rt orders ruleGroups))"

subsection \<open>Derived quantities of the main component (\<^verbatim>\<open>App.tsx\<close>)\<close>

text \<open>
  \<^verbatim>\<open>getMatchingWeight\<close> reads the component state \<^verbatim>\<open>matchingRules\<close>; the state is
  an argument here. \<^verbatim>\<open>item.matchedRuleId\<close> is tested for truthiness (a non-empty
  string), and \<^verbatim>\<open>Array.prototype.find\<close> returns the first hit.
\<close>

definition findRuleOf :: "MatchingRuleGroup list \<Rightarrow> ProcessedData \<Rightarrow> MatchingRuleGroup option" where
  "findRuleOf matchingRules item =
     (case p_matchedRuleId item of
        Some i \<Rightarrow> if i \<noteq> [] then find (\<lambda>rule. g_id rule = Some i) matchingRules
                  else find (\<lambda>rule. g_productName rule = p_printName item) matchingRules
      | None \<Rightarrow> find (\<lambda>rule. g_productName rule = p_printName item) matchingRules)"

definition getMatchingWeight :: "js_runtime \<Rightarrow> MatchingRuleGroup list \<Rightarrow> ProcessedData \<Rightarrow> int" where
  "getMatchingWeight rt matchingRules item =
     (if \<not> p_isMatched item then 1
      else case findRuleOf matchingRules item of
        None \<Rightarrow> 1
      | Some matchedRule \<Rightarrow>
          (let fallback = (if truthy (g_quantityWeight matchedRule)
                           then g_quantityWeight matchedRule else 1)
           in case p_originalOrder item of
                None \<Rightarrow> fallback
              | Some order \<Rightarrow>
                  (case ruleWeightAt matchedRule (createOrderIdentifier rt order) of
                     Some w \<Rightarrow> if truthy w then w else fallback
                   | None \<Rightarrow> fallback)))"

text \<open>\<^verbatim>\<open>Math.round\<close> rounds to the nearest integer, halves upwards.\<close>

definition Math_round :: "rat \<Rightarrow> int" where
  "Math_round x = \<lfloor>x + 1 / 2\<rfloor>"

definition getOriginalQuantity :: "js_runtime \<Rightarrow> MatchingRuleGroup list \<Rightarrow> ProcessedData \<Rightarrow> int" where
  "getOriginalQuantity rt matchingRules row =
     (if \<not> p_isMatched row then p_quantity row
      else (let w = getMatchingWeight rt matchingRules row;
                weight = (if truthy w then w else 1)
            in Math_round (of_int (p_quantity row) / of_int weight)))"

subsection \<open>Rule creation (\<^verbatim>\<open>handleRuleCreate\<close>)\<close>

text \<open>
  The rule list is component state; the function returns the list handed to
  \<^verbatim>\<open>setMatchingRules\<close>. In creation mode the modal always passes a group with exactly
  one identifier; for an empty \<^verbatim>\<open>rules\<close> array \<^verbatim>\<open>rules[0]\<close> is \<^verbatim>\<open>undefined\<close>,
  which the typed model does not represent: the result is \<open>None\<close> there.
\<close>

definition mergeIdentifier ::
  "MatchingRuleGroup \<Rightarrow> jsstring \<Rightarrow> MatchingRuleGroup \<Rightarrow> MatchingRuleGroup" where
  "mergeIdentifier newRuleGroup newIdentifier existingGroup =
     (let ws = (case g_ruleWeights existingGroup of None \<Rightarrow> [] | Some ws \<Rightarrow> ws);
          given = (case ruleWeightAt newRuleGroup newIdentifier of
                     Some w \<Rightarrow> if truthy w then Some w else None
                   | None \<Rightarrow> None)
      in if newIdentifier \<notin> set (g_rules existingGroup)
         then existingGroup\<lparr>
                g_rules := g_rules existingGroup @ [newIdentifier],
                g_ruleWeights := Some (AList.update newIdentifier
                  (case given of Some w \<Rightarrow> w | None \<Rightarrow> g_quantityWeight newRuleGroup) ws) \<rparr>
         else existingGroup\<lparr>
                g_ruleWeights := Some (case given of
                                         Some w \<Rightarrow> AList.update newIdentifier w ws
                                       | None \<Rightarrow> ws) \<rparr>)"

fun findIndexByName :: "jsstring \<Rightarrow> MatchingRuleGroup list \<Rightarrow> nat option" where
  "findIndexByName name [] = None"
| "findIndexByName name (g # gs) =
     (if g_productName g = name then Some 0
      else map_option Suc (findIndexByName name gs))"

definition handleRuleCreate ::
  "bool \<Rightarrow> MatchingRuleGroup option \<Rightarrow> MatchingRuleGroup list \<Rightarrow> MatchingRuleGroup
     \<Rightarrow> MatchingRuleGroup list option" where
  "handleRuleCreate isEditMode selectedRuleForEdit matchingRules newRuleGroup =
     (case (isEditMode, selectedRuleForEdit) of
        (True, Some selected) \<Rightarrow>
          Some (map (\<lambda>rule. if g_id rule = g_id selected then newRuleGroup else rule) matchingRules)
      | _ \<Rightarrow>
          (case findIndexByName (g_productName newRuleGroup) matchingRules of
             Some existingGroupIndex \<Rightarrow>
               (case g_rules newRuleGroup of
                  [] \<Rightarrow> None
                | newIdentifier # _ \<Rightarrow>
                    Some (matchingRules[existingGroupIndex :=
                            mergeIdentifier newRuleGroup newIdentifier
                              (matchingRules ! existingGroupIndex)]))
           | None \<Rightarrow> Some (matchingRules @ [newRuleGroup])))"

subsection \<open>An ASCII runtime\<close>

text \<open>
  On strings of ASCII code units \<^verbatim>\<open>toLowerCase\<close> maps \<open>A\<close>..\<open>Z\<close> to \<open>a\<close>..\<open>z\<close>.
  The runtime below does that and compares strings by their lower-cased code units;
  it serves to evaluate the functions on ASCII inputs.
\<close>

definition asciiLower :: "jsstring \<Rightarrow> jsstring" where
  "asciiLower s = map (\<lambda>c. if 0x41 \<le> c \<and> c \<le> 0x5A then c + 0x20 else c) s"

fun codeUnitCompare :: "jsstring \<Rightarrow> jsstring \<Rightarrow> int" where
  "codeUnitCompare [] [] = 0"
| "codeUnitCompare [] (y # ys) = - 1"
| "codeUnitCompare (x # xs) [] = 1"
| "codeUnitCompare (x # xs) (y # ys) =
     (if x < y then - 1 else if y < x then 1 else codeUnitCompare xs ys)"

definition asciiRuntime :: js_runtime where
  "asciiRuntime =
     \<lparr> toLowerCase = asciiLower,
       localeCompare = (\<lambda>a b. codeUnitCompare (asciiLower a) (asciiLower b)) \<rparr>"

subsection \<open>Backup loading (\<^verbatim>\<open>loadBackup\<close>, \<^verbatim>\<open>handleBackupUpload\<close>)\<close>

text \<open>
  A backup file is read as text and handed to \<^verbatim>\<open>JSON.parse\<close>. The model starts from
  the outcome of these two steps: the read failed (\<^verbatim>\<open>reader.onerror\<close>), the parse
  threw, or a JSON value was produced. Objects produced by \<^verbatim>\<open>JSON.parse\<close> have
  distinct keys.
\<close>

datatype json =
  JNull | JBool bool | JNum rat | JStr jsstring | JArr "json list"
  | JObj "(jsstring \<times> json) list"

datatype file_content = Unreadable | Malformed | Parsed json

text \<open>
  The two rejections of the promise: \<open>FileReadFailed\<close> carries the message of
  \<^verbatim>\<open>reader.onerror\<close>, \<open>BackupLoadFailed\<close> the message of the \<^verbatim>\<open>catch\<close> block, which
  replaces whatever was thrown inside \<^verbatim>\<open>try\<close>.
\<close>

datatype backup_error = FileReadFailed | BackupLoadFailed

text \<open>
  A property read \<^verbatim>\<open>backup.name\<close> on a parsed value, for a name that no prototype
  defines (\<^verbatim>\<open>rules\<close>, \<^verbatim>\<open>version\<close>, \<^verbatim>\<open>id\<close>): \<open>None\<close> is \<^verbatim>\<open>undefined\<close>. The
  read throws on \<^verbatim>\<open>null\<close>; the callers treat that case first.
\<close>

definition propertyOf :: "json \<Rightarrow> jsstring \<Rightarrow> json option" where
  "propertyOf j name = (case j of JObj kv \<Rightarrow> map_of kv name | _ \<Rightarrow> None)"

definition isArray :: "json option \<Rightarrow> bool" where
  "isArray v = (case v of Some (JArr xs) \<Rightarrow> True | _ \<Rightarrow> False)"

definition jsonTruthy :: "json option \<Rightarrow> bool" where
  "jsonTruthy v =
     (case v of
        None \<Rightarrow> False
      | Some JNull \<Rightarrow> False
      | Some (JBool b) \<Rightarrow> b
      | Some (JNum n) \<Rightarrow> n \<noteq> 0
      | Some (JStr s) \<Rightarrow> s \<noteq> []
      | Some (JArr xs) \<Rightarrow> True
      | Some (JObj kv) \<Rightarrow> True)"

definition loadBackup :: "file_content \<Rightarrow> backup_error + json list" where
  "loadBackup file =
     (case file of
        Unreadable \<Rightarrow> Inl FileReadFailed
      | Malformed \<Rightarrow> Inl BackupLoadFailed
      | Parsed JNull \<Rightarrow> Inl BackupLoadFailed
      | Parsed backup \<Rightarrow>
          if \<not> jsonTruthy (propertyOf backup (ascii ''rules''))
             \<or> \<not> isArray (propertyOf backup (ascii ''rules''))
             \<or> propertyOf backup (ascii ''version'') \<noteq> Some (JStr (ascii ''v1''))
          then Inl BackupLoadFailed
          else (case propertyOf backup (ascii ''rules'') of
                  Some (JArr rules) \<Rightarrow> Inr rules
                | _ \<Rightarrow> Inl BackupLoadFailed))"

text \<open>
  \<^verbatim>\<open>handleBackupUpload\<close> gives every loaded rule without a truthy \<^verbatim>\<open>id\<close> a fresh
  one: \<^verbatim>\<open>{ ...rule, id: generateUniqueId() }\<close>. The identifiers generated (time and
  random digits) are a parameter, indexed by the number of the call. The spread copies
  the own enumerable properties: those of an object, the indexed elements of an array or
  of a string, nothing of a number or boolean. The read \<^verbatim>\<open>rule.id\<close> throws on
  \<^verbatim>\<open>null\<close>; \<open>None\<close> is that exception.
\<close>

fun decimal :: "nat \<Rightarrow> jsstring" where
  "decimal n = (if n < 10 then [0x30 + n] else decimal (n div 10) @ [0x30 + n mod 10])"

definition spreadProperties :: "json \<Rightarrow> (jsstring \<times> json) list" where
  "spreadProperties j =
     (case j of
        JObj kv \<Rightarrow> kv
      | JArr xs \<Rightarrow> zip (map decimal [0..<length xs]) xs
      | JStr s \<Rightarrow> zip (map decimal [0..<length s]) (map (\<lambda>c. JStr [c]) s)
      | _ \<Rightarrow> [])"

fun addIds :: "(nat \<Rightarrow> jsstring) \<Rightarrow> nat \<Rightarrow> json list \<Rightarrow> json list option" where
  "addIds ids n [] = Some []"
| "addIds ids n (rule # rest) =
     (if rule = JNull then None
      else if \<not> jsonTruthy (propertyOf rule (ascii ''id''))
      then map_option
             ((#) (JObj (AList.update (ascii ''id'') (JStr (ids n)) (spreadProperties rule))))
             (addIds ids (Suc n) rest)
      else map_option ((#) rule) (addIds ids n rest))"

text \<open>
  The component state that the handler touches. The loader returns the parsed array as
  it is (a cast to \<^verbatim>\<open>MatchingRuleGroup[]\<close>), so the rule set is a list of JSON values
  here. \<^verbatim>\<open>runProcess\<close> reads the retained spreadsheet again; it is a parameter that
  maps the state, and it does not assign the rule set in the source.
\<close>

datatype upload_error = LoadError backup_error | RuntimeTypeError

record 'f app_state =
  s_matchingRules :: "json list"
  s_processedData :: "ProcessedData list"
  s_error :: "upload_error option"
  s_isLoading :: bool
  s_originalFile :: "'f option"

definition handleBackupUpload ::
  "('f \<Rightarrow> json list \<Rightarrow> 'f app_state \<Rightarrow> 'f app_state) \<Rightarrow> (nat \<Rightarrow> jsstring)
     \<Rightarrow> file_content option \<Rightarrow> 'f app_state \<Rightarrow> 'f app_state" where
  "handleBackupUpload runProcess ids file st =
     (case file of
        None \<Rightarrow> st
      | Some f \<Rightarrow>
          (let st1 = st\<lparr> s_isLoading := True, s_error := None \<rparr>
           in case loadBackup f of
                Inl e \<Rightarrow> st1\<lparr> s_error := Some (LoadError e), s_isLoading := False \<rparr>
              | Inr loadedRules \<Rightarrow>
                  (case addIds ids 0 loadedRules of
                     None \<Rightarrow> st1\<lparr> s_error := Some RuntimeTypeError, s_isLoading := False \<rparr>
                   | Some rulesWithIds \<Rightarrow>
                       (let st2 = st1\<lparr> s_matchingRules := rulesWithIds \<rparr>;
                            st3 = (case s_originalFile st2 of
                                     Some original \<Rightarrow> runProcess original rulesWithIds st2
                                   | None \<Rightarrow> st2\<lparr> s_processedData := [] \<rparr>)
                        in st3\<lparr> s_isLoading := False \<rparr>))))"

subsection \<open>The weight resolver as the specification words it\<close>

text \<open>
  Section 4.3 of the specification: ``If \<^verbatim>\<open>group.weightOverrides\<close> contains
  \<^verbatim>\<open>identifier\<close>, return that value; otherwise return \<^verbatim>\<open>group.defaultWeight\<close>; if
  neither is set or the value is not a positive integer, fall back to 1.''
\<close>

definition spec_resolveWeight :: "MatchingRuleGroup \<Rightarrow> jsstring \<Rightarrow> int" where
  "spec_resolveWeight rule ruleId =
     (let found = (case ruleWeightAt rule ruleId of
                     Some w \<Rightarrow> w
                   | None \<Rightarrow> g_quantityWeight rule)
      in if 0 < found then found else 1)"

subsection \<open>The weight of an order, in words\<close>


definition nonzeroWeight :: "MatchingRuleGroup \<Rightarrow> jsstring \<Rightarrow> int" where
  "nonzeroWeight rule ruleId =
     (let fallback = (if g_quantityWeight rule \<noteq> 0 then g_quantityWeight rule else 1)
      in case g_ruleWeights rule of
           None \<Rightarrow> fallback
         | Some ws \<Rightarrow>
             (case map_of ws ruleId of
                None \<Rightarrow> fallback
              | Some w \<Rightarrow> if w \<noteq> 0 then w else fallback))"

definition orderWeightBy ::
  "(MatchingRuleGroup \<Rightarrow> jsstring \<Rightarrow> int) \<Rightarrow> js_runtime \<Rightarrow> MatchingRuleGroup list
     \<Rightarrow> OrderData \<Rightarrow> int" where
  "orderWeightBy resolver rt ruleGroups order =
     (case findMatchingRule rt order ruleGroups of
        Some (rule, ruleId) \<Rightarrow> resolver rule ruleId
      | None \<Rightarrow> 1)"

subsection \<open>Concrete inputs\<close>

text \<open>The scenario of section 8 of the specification.\<close>

definition plainOrder :: "string \<Rightarrow> string \<Rightarrow> string \<Rightarrow> string \<Rightarrow> int \<Rightarrow> OrderData" where
  "plainOrder s n p opt q =
     \<lparr> o_seller = ascii s, o_productNumber = ascii n, o_productName = ascii p,
       o_optionName = ascii opt, o_quantity = q,
       o_paymentAmount = 0, o_settlementAmount = 0, o_purchaseAmount = 0, o_weight = 0,
       o_stockLocation = [], o_boxSpec = [] \<rparr>"

definition scenarioO1 :: OrderData where
  "scenarioO1 = plainOrder ''StoreA'' ''100'' ''Widget'' ''Red'' 3"

definition scenarioO2 :: OrderData where
  "scenarioO2 = plainOrder ''storea'' ''100'' ''widget'' ''red'' 2"

definition scenarioO3 :: OrderData where
  "scenarioO3 = plainOrder ''StoreB'' ''200'' ''Gadget'' [] 5"

definition scenarioR1 :: MatchingRuleGroup where
  "scenarioR1 =
     \<lparr> g_productName = ascii ''Widgets'', g_stock = 0, g_quantityWeight = 1,
       g_rules = [ascii ''storea|100|widget|red''],
       g_ruleWeights = Some [(ascii ''storea|100|widget|red'', 2)],
       g_id = Some (ascii ''r1'') \<rparr>"

text \<open>Variations of the scenario's group used below.\<close>

definition laterGroup :: MatchingRuleGroup where
  "laterGroup = scenarioR1\<lparr> g_productName := ascii ''Gizmos'', g_id := Some (ascii ''r2'') \<rparr>"

definition sameNameGroup :: MatchingRuleGroup where
  "sameNameGroup =
     scenarioR1\<lparr> g_rules := [ascii ''storeb|200|gadget|''], g_ruleWeights := None,
                 g_quantityWeight := 3, g_id := Some (ascii ''r2'') \<rparr>"

definition zeroOverrideGroup :: MatchingRuleGroup where
  "zeroOverrideGroup =
     scenarioR1\<lparr> g_quantityWeight := 3,
                 g_ruleWeights := Some [(ascii ''storea|100|widget|red'', 0)] \<rparr>"

definition negativeOverrideGroup :: MatchingRuleGroup where
  "negativeOverrideGroup =
     scenarioR1\<lparr> g_ruleWeights := Some [(ascii ''storea|100|widget|red'', - 2)] \<rparr>"

definition constructorGroup :: MatchingRuleGroup where
  "constructorGroup = scenarioR1\<lparr> g_productName := ascii ''constructor'' \<rparr>"

definition paddedOrder :: OrderData where
  "paddedOrder =
     scenarioO2\<lparr> o_seller := [0x20, 0x09] @ ascii ''STOREA'' @ [0x3000],
                 o_optionName := ascii ''rEd'' @ [0x0A],
                 o_quantity := 40, o_stockLocation := ascii ''A-1'' \<rparr>"

text \<open>A second group named like \<open>constructorGroup\<close>, and inputs of the backup loader.\<close>

definition constructorTwin :: MatchingRuleGroup where
  "constructorTwin =
     constructorGroup\<lparr> g_rules := [ascii ''storeb|200|gadget|''], g_id := Some (ascii ''r2'') \<rparr>"

definition wrongVersionBackup :: json where
  "wrongVersionBackup =
     JObj [(ascii ''version'', JStr (ascii ''v2'')), (ascii ''timestamp'', JStr []),
           (ascii ''rules'', JArr [])]"

definition rulesNotArrayBackup :: json where
  "rulesNotArrayBackup =
     JObj [(ascii ''version'', JStr (ascii ''v1'')),
           (ascii ''rules'', JObj [(ascii ''0'', JNull)])]"

definition someState :: "unit app_state" where
  "someState =
     \<lparr> s_matchingRules = [JObj [(ascii ''productName'', JStr (ascii ''Widgets''))]],
       s_processedData = [], s_error = None, s_isLoading = False, s_originalFile = Some () \<rparr>"

subsection \<open>Bookkeeping of the aggregation pass\<close>

text \<open>
  The property name under which \<^verbatim>\<open>processOrders\<close> files an order: the \<^verbatim>\<open>key\<close> of
  either branch.
\<close>

definition orderKey :: "js_runtime \<Rightarrow> MatchingRuleGroup list \<Rightarrow> OrderData \<Rightarrow> jsstring" where
  "orderKey rt ruleGroups order =
     (case findMatchingRule rt order ruleGroups of
        Some (rule, ruleId) \<Rightarrow> g_productName rule
      | None \<Rightarrow> unmatchedPrefix @ createOrderIdentifier rt order)"

text \<open>
  The invariant of the pass over the orders seen so far: own keys are distinct and not
  inherited names; a Matched row is displayed under its key; and a key without a row,
  unless inherited, has had no order yet.
\<close>

definition rowsAccountFor ::
  "js_runtime \<Rightarrow> MatchingRuleGroup list \<Rightarrow> OrderData list \<Rightarrow> (jsstring \<times> ProcessedData) list \<Rightarrow> bool" where
  "rowsAccountFor rt gs os acc \<longleftrightarrow>
     distinct (map fst acc)
     \<and> (\<forall>k row. map_of acc k = Some row \<longrightarrow>
           k \<notin> set objectPrototypeKeys \<and> (p_isMatched row \<longrightarrow> p_printName row = k))
     \<and> (\<forall>k. map_of acc k = None \<longrightarrow> k \<notin> set objectPrototypeKeys \<longrightarrow>
           filter (\<lambda>x. orderKey rt gs x = k) os = [])"



text \<open>Inputs with two Matched and two Unmatched rows.\<close>

definition alphaGroup :: MatchingRuleGroup where
  "alphaGroup =
     \<lparr> g_productName = ascii ''alpha'', g_stock = 0, g_quantityWeight = 3,
       g_rules = [ascii ''storeb|200|gadget|''], g_ruleWeights = None,
       g_id = Some (ascii ''r3'') \<rparr>"

definition zedOrder :: OrderData where
  "zedOrder = plainOrder ''Zed'' ''1'' ''Thing'' [] 1"

definition abeOrder :: OrderData where
  "abeOrder = plainOrder ''abe'' ''2'' ''Thing'' [] 1"

section \<open>Properties\<close>

subsection \<open>Evaluation of the concrete inputs\<close>

lemmas scenario_defs =
  scenarioO1_def scenarioO2_def scenarioO3_def scenarioR1_def plainOrder_def laterGroup_def
  sameNameGroup_def zeroOverrideGroup_def negativeOverrideGroup_def constructorGroup_def
  paddedOrder_def

lemmas identifier_defs =
  createOrderIdentifier_def normalizeFieldValue_def trim_def isWhiteSpace_def ascii_def
  asciiRuntime_def asciiLower_def

lemma scenario_identifiers:
  "createOrderIdentifier asciiRuntime scenarioO1 = ascii ''storea|100|widget|red''"
  "createOrderIdentifier asciiRuntime scenarioO2 = ascii ''storea|100|widget|red''"
  "createOrderIdentifier asciiRuntime scenarioO3 = ascii ''storeb|200|gadget|''"
  "createOrderIdentifier asciiRuntime paddedOrder = ascii ''storea|100|widget|red''"
  by (simp_all add: scenario_defs identifier_defs)

subsection \<open>Identifier normalisation\<close>

text \<open>
  Padding a field with white space on either side does not change what \<^verbatim>\<open>trim\<close>
  returns.
\<close>

lemma dropWhile_skip_all:
  "\<forall>x \<in> set ys. P x \<Longrightarrow> dropWhile P (ys @ xs) = dropWhile P xs"
  by (induction ys) auto

lemma trim_padding:
  assumes "list_all isWhiteSpace l" "list_all isWhiteSpace r"
  shows "trim (l @ s @ r) = trim s"
proof -
  have l: "\<And>xs. dropWhile isWhiteSpace (l @ xs) = dropWhile isWhiteSpace xs"
    using assms(1) by (simp add: dropWhile_skip_all list_all_iff)
  have r: "\<And>xs. dropWhile isWhiteSpace (rev r @ xs) = dropWhile isWhiteSpace xs"
    using assms(2) by (simp add: dropWhile_skip_all list_all_iff)
  show ?thesis
  proof (cases "list_all isWhiteSpace s")
    case True
    with assms(2) have "dropWhile isWhiteSpace (s @ r) = []" and e: "dropWhile isWhiteSpace s = []"
      by (auto simp: dropWhile_eq_Nil_conv list_all_iff)
    with l [of "s @ r"] have e1: "dropWhile isWhiteSpace (l @ s @ r) = []" by (simp only:)
    show ?thesis unfolding trim_def e1 e by (rule refl)
  next
    case False
    then obtain x where x: "x \<in> set s" "\<not> isWhiteSpace x" by (auto simp: list_all_iff)
    then have "dropWhile isWhiteSpace (s @ r) = dropWhile isWhiteSpace s @ r"
      by (simp add: dropWhile_append1)
    with l [of "s @ r"] have e2: "dropWhile isWhiteSpace (l @ s @ r) = dropWhile isWhiteSpace s @ r"
      by (simp only:)
    show ?thesis
      unfolding trim_def e2 rev_append r [of "rev (dropWhile isWhiteSpace s)"] by (rule refl)
  qed
qed

lemma normalizeFieldValue_eq:
  "toLowerCase rt [] = [] \<Longrightarrow> normalizeFieldValue rt (Some s) = toLowerCase rt (trim s)"
  by (simp add: normalizeFieldValue_def trim_def)

text \<open>
  C6. The identifier depends on the four key fields only through their trimmed and
  lower-cased values: two orders whose seller, product number, product name and option
  name agree after \<^verbatim>\<open>trim\<close> and \<^verbatim>\<open>toLowerCase\<close> get the same identifier, whatever
  their quantities and other fields are. In particular, white space added before and
  after the four fields leaves the identifier as it is. The empty-field guard of
  \<^verbatim>\<open>normalizeFieldValue\<close> agrees with the normal path because lower-casing the empty
  string gives the empty string, which is the one fact about the runtime that is used.
\<close>

theorem createOrderIdentifier_insensitive:
  assumes "toLowerCase rt [] = []"
  shows "(toLowerCase rt (trim (o_seller a)) = toLowerCase rt (trim (o_seller b))
          \<and> toLowerCase rt (trim (o_productNumber a)) = toLowerCase rt (trim (o_productNumber b))
          \<and> toLowerCase rt (trim (o_productName a)) = toLowerCase rt (trim (o_productName b))
          \<and> toLowerCase rt (trim (o_optionName a)) = toLowerCase rt (trim (o_optionName b))
          \<longrightarrow> createOrderIdentifier rt a = createOrderIdentifier rt b)
       \<and> (list_all isWhiteSpace l \<and> list_all isWhiteSpace r
          \<longrightarrow> createOrderIdentifier rt
                (a\<lparr> o_seller := l @ o_seller a @ r,
                    o_productNumber := l @ o_productNumber a @ r,
                    o_productName := l @ o_productName a @ r,
                    o_optionName := l @ o_optionName a @ r \<rparr>)
              = createOrderIdentifier rt a)"
proof (intro conjI impI)
  assume "toLowerCase rt (trim (o_seller a)) = toLowerCase rt (trim (o_seller b))
          \<and> toLowerCase rt (trim (o_productNumber a)) = toLowerCase rt (trim (o_productNumber b))
          \<and> toLowerCase rt (trim (o_productName a)) = toLowerCase rt (trim (o_productName b))
          \<and> toLowerCase rt (trim (o_optionName a)) = toLowerCase rt (trim (o_optionName b))"
  then show "createOrderIdentifier rt a = createOrderIdentifier rt b"
    by (simp add: createOrderIdentifier_def normalizeFieldValue_eq [OF assms])
next
  assume "list_all isWhiteSpace l \<and> list_all isWhiteSpace r"
  then have "trim (l @ s @ r) = trim s" for s
    by (simp add: trim_padding)
  then show "createOrderIdentifier rt
                (a\<lparr> o_seller := l @ o_seller a @ r,
                    o_productNumber := l @ o_productNumber a @ r,
                    o_productName := l @ o_productName a @ r,
                    o_optionName := l @ o_optionName a @ r \<rparr>)
              = createOrderIdentifier rt a"
    by (simp add: createOrderIdentifier_def normalizeFieldValue_eq [OF assms])
qed

theorem createOrderIdentifier_insensitive_witness:
  "o_seller paddedOrder \<noteq> o_seller scenarioO1
   \<and> o_optionName paddedOrder \<noteq> o_optionName scenarioO1
   \<and> o_quantity paddedOrder \<noteq> o_quantity scenarioO1
   \<and> createOrderIdentifier asciiRuntime paddedOrder = createOrderIdentifier asciiRuntime scenarioO1"
proof -
  have "toLowerCase asciiRuntime [] = []"
    by (simp add: asciiRuntime_def asciiLower_def)
  moreover have "toLowerCase asciiRuntime (trim (o_seller paddedOrder))
      = toLowerCase asciiRuntime (trim (o_seller scenarioO1))"
    by (simp add: scenario_defs identifier_defs)
  moreover have "toLowerCase asciiRuntime (trim (o_productNumber paddedOrder))
      = toLowerCase asciiRuntime (trim (o_productNumber scenarioO1))"
    by (simp add: scenario_defs identifier_defs)
  moreover have "toLowerCase asciiRuntime (trim (o_productName paddedOrder))
      = toLowerCase asciiRuntime (trim (o_productName scenarioO1))"
    by (simp add: scenario_defs identifier_defs)
  moreover have "toLowerCase asciiRuntime (trim (o_optionName paddedOrder))
      = toLowerCase asciiRuntime (trim (o_optionName scenarioO1))"
    by (simp add: scenario_defs identifier_defs)
  moreover have "o_seller paddedOrder \<noteq> o_seller scenarioO1
      \<and> o_optionName paddedOrder \<noteq> o_optionName scenarioO1
      \<and> o_quantity paddedOrder \<noteq> o_quantity scenarioO1"
    by (simp add: scenario_defs ascii_def)
  ultimately show ?thesis
    using createOrderIdentifier_insensitive [of asciiRuntime paddedOrder scenarioO1] by blast
qed

subsection \<open>Rule lookup\<close>

lemma scanGroups_None: "scanGroups i gs = None \<longleftrightarrow> (\<forall>g \<in> set gs. i \<notin> set (g_rules g))"
  by (induction gs) auto

lemma scanGroups_Some_split:
  "scanGroups i gs = Some (g, r) \<Longrightarrow>
     r = i \<and> (\<exists>before after. gs = before @ g # after \<and> i \<in> set (g_rules g)
                 \<and> (\<forall>h \<in> set before. i \<notin> set (g_rules h)))"
proof (induction gs)
  case Nil
  then show ?case by simp
next
  case (Cons a gs)
  show ?case
  proof (cases "i \<in> set (g_rules a)")
    case True
    with Cons.prems have "g = a" "r = i" by simp_all
    with True have "a # gs = [] @ g # gs \<and> i \<in> set (g_rules g) \<and> (\<forall>h \<in> set []. i \<notin> set (g_rules h))"
      by simp
    with \<open>r = i\<close> show ?thesis by blast
  next
    case False
    with Cons.prems have "scanGroups i gs = Some (g, r)" by simp
    from Cons.IH [OF this] obtain before after where
      r: "r = i" and d: "gs = before @ g # after" "i \<in> set (g_rules g)"
        "\<forall>h \<in> set before. i \<notin> set (g_rules h)" by blast
    from d False have "a # gs = (a # before) @ g # after \<and> i \<in> set (g_rules g)
        \<and> (\<forall>h \<in> set (a # before). i \<notin> set (g_rules h))" by simp
    with r show ?thesis by blast
  qed
qed

lemma scanGroups_first:
  "i \<in> set (g_rules g) \<Longrightarrow> \<forall>h \<in> set before. i \<notin> set (g_rules h) \<Longrightarrow>
     scanGroups i (before @ g # after) = Some (g, i)"
  by (induction before) auto

text \<open>
  C3. \<^verbatim>\<open>findMatchingRule\<close> returns \<^verbatim>\<open>null\<close> exactly when no group lists the order's
  identifier. It returns a group exactly when that group lists the identifier and no
  group stored before it does, so the earliest group wins when several list it; the
  returned rule id is the identifier. On \<^verbatim>\<open>null\<close> the aggregation step takes the
  unmatched branch.
\<close>

theorem findMatchingRule_first_match:
  "(findMatchingRule rt order ruleGroups = None \<longleftrightarrow>
      (\<forall>g \<in> set ruleGroups. createOrderIdentifier rt order \<notin> set (g_rules g)))
   \<and> (\<forall>g ruleId. findMatchingRule rt order ruleGroups = Some (g, ruleId) \<longleftrightarrow>
        ruleId = createOrderIdentifier rt order
        \<and> (\<exists>before after. ruleGroups = before @ g # after
              \<and> ruleId \<in> set (g_rules g)
              \<and> (\<forall>h \<in> set before. ruleId \<notin> set (g_rules h))))
   \<and> (findMatchingRule rt order ruleGroups = None \<longrightarrow>
        (\<forall>processedData. processOrder rt ruleGroups processedData order =
           accumulate (unmatchedPrefix @ createOrderIdentifier rt order)
             (newUnmatchedRow (unmatchedPrefix @ createOrderIdentifier rt order) order)
             (addUnmatched order) processedData))"
proof (intro conjI allI impI)
  show "findMatchingRule rt order ruleGroups = None \<longleftrightarrow>
      (\<forall>g \<in> set ruleGroups. createOrderIdentifier rt order \<notin> set (g_rules g))"
    by (simp add: findMatchingRule_def scanGroups_None)
next
  fix g ruleId
  show "findMatchingRule rt order ruleGroups = Some (g, ruleId) \<longleftrightarrow>
        ruleId = createOrderIdentifier rt order
        \<and> (\<exists>before after. ruleGroups = before @ g # after
              \<and> ruleId \<in> set (g_rules g)
              \<and> (\<forall>h \<in> set before. ruleId \<notin> set (g_rules h)))"
    unfolding findMatchingRule_def
    using scanGroups_Some_split [of "createOrderIdentifier rt order" ruleGroups g ruleId]
      scanGroups_first [of "createOrderIdentifier rt order" g]
    by blast
next
  fix processedData
  assume "findMatchingRule rt order ruleGroups = None"
  then show "processOrder rt ruleGroups processedData order =
           accumulate (unmatchedPrefix @ createOrderIdentifier rt order)
             (newUnmatchedRow (unmatchedPrefix @ createOrderIdentifier rt order) order)
             (addUnmatched order) processedData"
    by (simp add: processOrder_def Let_def)
qed

theorem findMatchingRule_first_match_witness:
  "findMatchingRule asciiRuntime scenarioO1 [laterGroup, scenarioR1]
     = Some (laterGroup, ascii ''storea|100|widget|red'')
   \<and> findMatchingRule asciiRuntime scenarioO3 [laterGroup, scenarioR1] = None"
proof -
  have "ascii ''storea|100|widget|red'' \<in> set (g_rules laterGroup)"
    by (simp add: scenario_defs)
  then have "\<exists>before after. [laterGroup, scenarioR1] = before @ laterGroup # after
      \<and> ascii ''storea|100|widget|red'' \<in> set (g_rules laterGroup)
      \<and> (\<forall>h \<in> set before. ascii ''storea|100|widget|red'' \<notin> set (g_rules h))"
    by (intro exI [of _ "[]"] exI [of _ "[scenarioR1]"]) simp
  moreover have "\<forall>g \<in> set [laterGroup, scenarioR1].
      createOrderIdentifier asciiRuntime scenarioO3 \<notin> set (g_rules g)"
    by (simp add: scenario_identifiers) (simp add: scenario_defs ascii_def)
  ultimately show ?thesis
    using findMatchingRule_first_match [of asciiRuntime scenarioO1 "[laterGroup, scenarioR1]"]
      findMatchingRule_first_match [of asciiRuntime scenarioO3 "[laterGroup, scenarioR1]"]
    by (simp add: scenario_identifiers)
qed

subsection \<open>Weight resolution\<close>

text \<open>
  C4, as the code has it. The resolver returns the per-identifier override when the
  weights object holds a non-zero number for the identifier; otherwise the group's
  default weight when that is non-zero; otherwise 1. The result is never 0. When the
  stored override, if any, is positive and the default weight is not negative, this is
  the value the specification describes.
\<close>

theorem resolveWeight_truthiness:
  "(\<forall>w. ruleWeightAt rule ruleId = Some w \<and> w \<noteq> 0 \<longrightarrow> resolveWeight rule ruleId = w)
   \<and> ((ruleWeightAt rule ruleId = None \<or> ruleWeightAt rule ruleId = Some 0)
        \<and> g_quantityWeight rule \<noteq> 0 \<longrightarrow> resolveWeight rule ruleId = g_quantityWeight rule)
   \<and> ((ruleWeightAt rule ruleId = None \<or> ruleWeightAt rule ruleId = Some 0)
        \<and> g_quantityWeight rule = 0 \<longrightarrow> resolveWeight rule ruleId = 1)
   \<and> resolveWeight rule ruleId \<noteq> 0
   \<and> ((\<forall>w. ruleWeightAt rule ruleId = Some w \<longrightarrow> 0 < w) \<and> 0 \<le> g_quantityWeight rule
        \<longrightarrow> resolveWeight rule ruleId = spec_resolveWeight rule ruleId)"
  by (auto simp: resolveWeight_def spec_resolveWeight_def truthy_def split: option.splits)

theorem resolveWeight_truthiness_witness:
  "ruleWeightAt scenarioR1 (ascii ''storea|100|widget|red'') = Some 2
   \<and> resolveWeight scenarioR1 (ascii ''storea|100|widget|red'') = 2
   \<and> spec_resolveWeight scenarioR1 (ascii ''storea|100|widget|red'') = 2
   \<and> ruleWeightAt sameNameGroup (ascii ''storeb|200|gadget|'') = None
   \<and> resolveWeight sameNameGroup (ascii ''storeb|200|gadget|'') = 3"
proof -
  have a: "ruleWeightAt scenarioR1 (ascii ''storea|100|widget|red'') = Some 2"
    by (simp add: ruleWeightAt_def scenario_defs)
  have b: "ruleWeightAt sameNameGroup (ascii ''storeb|200|gadget|'') = None"
    by (simp add: ruleWeightAt_def scenario_defs)
  have c: "g_quantityWeight sameNameGroup = 3" "g_quantityWeight scenarioR1 = 1"
    by (simp_all add: scenario_defs)
  show ?thesis
    using a b c resolveWeight_truthiness [of scenarioR1 "ascii ''storea|100|widget|red''"]
      resolveWeight_truthiness [of sameNameGroup "ascii ''storeb|200|gadget|''"]
    by simp
qed

text \<open>
  C4, as the specification words it, fails on the code: a stored override of 0 yields
  the default weight 3 where the specification falls back to 1, and a stored override of
  -2 is returned as it is where the specification falls back to 1.
\<close>

theorem resolveWeight_not_spec_counterexample:
  "resolveWeight zeroOverrideGroup (ascii ''storea|100|widget|red'') = 3
   \<and> spec_resolveWeight zeroOverrideGroup (ascii ''storea|100|widget|red'') = 1
   \<and> resolveWeight negativeOverrideGroup (ascii ''storea|100|widget|red'') = - 2
   \<and> spec_resolveWeight negativeOverrideGroup (ascii ''storea|100|widget|red'') = 1"
  by (simp add: resolveWeight_def spec_resolveWeight_def ruleWeightAt_def truthy_def scenario_defs)



subsection \<open>Backup loading\<close>

lemma loadBackup_Parsed:
  "loadBackup (Parsed backup) =
     (case propertyOf backup (ascii ''rules'') of
        Some (JArr rules) \<Rightarrow>
          if propertyOf backup (ascii ''version'') = Some (JStr (ascii ''v1''))
          then Inr rules else Inl BackupLoadFailed
      | _ \<Rightarrow> Inl BackupLoadFailed)"
  by (cases backup)
    (auto simp: loadBackup_def propertyOf_def isArray_def jsonTruthy_def
      split: option.splits json.splits)

text \<open>
  C9. \<^verbatim>\<open>loadBackup\<close> resolves exactly when the parsed value has the \<^verbatim>\<open>version\<close>
  \<^verbatim>\<open>"v1"\<close> and an array under \<^verbatim>\<open>rules\<close>; a parsed value whose version is not
  \<^verbatim>\<open>"v1"\<close> or whose \<^verbatim>\<open>rules\<close> is not an array is rejected with an error. On
  every rejection of the loader \<^verbatim>\<open>handleBackupUpload\<close> leaves the rule set of the
  component as it was and stores the error.
\<close>

theorem loadBackup_rejects_invalid:
  "(\<forall>rules. loadBackup (Parsed backup) = Inr rules \<longleftrightarrow>
       propertyOf backup (ascii ''version'') = Some (JStr (ascii ''v1''))
       \<and> propertyOf backup (ascii ''rules'') = Some (JArr rules))
   \<and> (propertyOf backup (ascii ''version'') \<noteq> Some (JStr (ascii ''v1''))
        \<or> \<not> isArray (propertyOf backup (ascii ''rules''))
       \<longrightarrow> loadBackup (Parsed backup) = Inl BackupLoadFailed)
   \<and> (\<forall>e. loadBackup file = Inl e \<longrightarrow>
         s_matchingRules (handleBackupUpload runProcess ids (Some file) st) = s_matchingRules st
         \<and> s_error (handleBackupUpload runProcess ids (Some file) st) = Some (LoadError e))"
proof (intro conjI allI impI)
  fix rules
  show "loadBackup (Parsed backup) = Inr rules \<longleftrightarrow>
       propertyOf backup (ascii ''version'') = Some (JStr (ascii ''v1''))
       \<and> propertyOf backup (ascii ''rules'') = Some (JArr rules)"
    by (auto simp: loadBackup_Parsed split: option.splits json.splits if_splits)
next
  assume "propertyOf backup (ascii ''version'') \<noteq> Some (JStr (ascii ''v1''))
        \<or> \<not> isArray (propertyOf backup (ascii ''rules''))"
  then show "loadBackup (Parsed backup) = Inl BackupLoadFailed"
    by (auto simp: loadBackup_Parsed isArray_def split: option.splits json.splits)
next
  fix e
  assume "loadBackup file = Inl e"
  then show "s_matchingRules (handleBackupUpload runProcess ids (Some file) st) = s_matchingRules st"
    by (simp add: handleBackupUpload_def)
next
  fix e
  assume "loadBackup file = Inl e"
  then show "s_error (handleBackupUpload runProcess ids (Some file) st) = Some (LoadError e)"
    by (simp add: handleBackupUpload_def)
qed

theorem loadBackup_rejects_invalid_witness:
  "propertyOf wrongVersionBackup (ascii ''version'') \<noteq> Some (JStr (ascii ''v1''))
   \<and> loadBackup (Parsed wrongVersionBackup) = Inl BackupLoadFailed
   \<and> \<not> isArray (propertyOf rulesNotArrayBackup (ascii ''rules''))
   \<and> loadBackup (Parsed rulesNotArrayBackup) = Inl BackupLoadFailed
   \<and> s_matchingRules (handleBackupUpload (\<lambda>f rules st. st) (\<lambda>n. decimal n)
        (Some (Parsed wrongVersionBackup)) someState) = s_matchingRules someState
   \<and> s_error (handleBackupUpload (\<lambda>f rules st. st) (\<lambda>n. decimal n)
        (Some (Parsed wrongVersionBackup)) someState) = Some (LoadError BackupLoadFailed)"
proof -
  have a: "propertyOf wrongVersionBackup (ascii ''version'') \<noteq> Some (JStr (ascii ''v1''))"
    by (simp add: wrongVersionBackup_def propertyOf_def ascii_def)
  have b: "\<not> isArray (propertyOf rulesNotArrayBackup (ascii ''rules''))"
    by (simp add: rulesNotArrayBackup_def propertyOf_def isArray_def ascii_def)
  from a have c: "loadBackup (Parsed wrongVersionBackup) = Inl BackupLoadFailed"
    using loadBackup_rejects_invalid [of wrongVersionBackup] by blast
  from b have d: "loadBackup (Parsed rulesNotArrayBackup) = Inl BackupLoadFailed"
    using loadBackup_rejects_invalid [of rulesNotArrayBackup] by blast
  from c show ?thesis
    using a b d loadBackup_rejects_invalid [of wrongVersionBackup "Parsed wrongVersionBackup"
        "\<lambda>f rules st. st" "\<lambda>n. decimal n" someState]
    by blast
qed

subsection \<open>The scenario of section 8\<close>

lemmas engine_defs =
  processOrders_def aggregate_def processOrder_def findMatchingRule_def
  createOrderIdentifier_def normalizeFieldValue_def asciiRuntime_def asciiLower_def trim_def
  isWhiteSpace_def ascii_def accumulate_def objectPrototypeKeys_def resolveWeight_def
  ruleWeightAt_def truthy_def newMatchedRow_def newUnmatchedRow_def addMatched_def
  addUnmatched_def unmatchedPrefix_def matchedPrefix_def joinNonEmpty_def objectValues_def
  arrayIndex_def isDigit_def digitsValue_def sortRows_def rowCompare_def insufficientInfo_def
  binary64_def Let_def

text \<open>
  C5, evaluated. In the scenario the aggregation yields the Matched row ``Widgets'' with
  order count 2 and weighted quantity 10, whose \<^verbatim>\<open>originalOrder\<close> is \<^verbatim>\<open>null\<close>.
  \<^verbatim>\<open>getMatchingWeight\<close> consults the per-identifier weights only under
  \<^verbatim>\<open>if (item.originalOrder)\<close>, so it returns the default weight 1 of the group, and
  \<^verbatim>\<open>getOriginalQuantity\<close> returns \<open>round (10 / 1) = 10\<close>, not \<open>round (10 / 2) = 5\<close>.
\<close>

theorem scenario_original_quantity_is_10:
  "map (\<lambda>r. (p_printName r, p_isMatched r, p_orderCount r, p_quantity r, p_originalOrder r = None))
       (processOrders asciiRuntime [scenarioO1, scenarioO2, scenarioO3] [scenarioR1])
     = [(ascii ''Widgets'', True, 2, 10, True), (ascii ''StoreB / Gadget'', False, 1, 5, False)]
   \<and> map (getMatchingWeight asciiRuntime [scenarioR1])
       (processOrders asciiRuntime [scenarioO1, scenarioO2, scenarioO3] [scenarioR1]) = [1, 1]
   \<and> map (getOriginalQuantity asciiRuntime [scenarioR1])
       (processOrders asciiRuntime [scenarioO1, scenarioO2, scenarioO3] [scenarioR1]) = [10, 5]"
  by (simp add: scenario_defs engine_defs getOriginalQuantity_def getMatchingWeight_def
      findRuleOf_def Math_round_def floor_eq_iff)

subsection \<open>Names inherited from \<^verbatim>\<open>Object.prototype\<close>\<close>

text \<open>
  C2, evaluated at a group named \<^verbatim>\<open>constructor\<close>. The read
  \<^verbatim>\<open>processedData["constructor"]\<close> finds the inherited constructor function, so no
  row is created and the two orders that match the group are counted in no output row:
  the order counts of the output sum to 1 for 3 input orders.
\<close>

theorem constructor_group_loses_orders:
  "map (\<lambda>r. (p_printName r, p_isMatched r, p_orderCount r))
       (processOrders asciiRuntime [scenarioO1, scenarioO2, scenarioO3] [constructorGroup])
     = [(ascii ''StoreB / Gadget'', False, 1)]
   \<and> sum_list (map p_orderCount
        (processOrders asciiRuntime [scenarioO1, scenarioO2, scenarioO3] [constructorGroup])) = 1
   \<and> length [scenarioO1, scenarioO2, scenarioO3] = 3"
  by (simp add: scenario_defs engine_defs)

text \<open>
  C8, evaluated at two distinct groups that are both named \<^verbatim>\<open>constructor\<close>. One
  order matches each group, and the output has no row at all, so the orders are not
  folded into a Matched row.
\<close>

theorem constructor_twins_have_no_row:
  "constructorGroup \<noteq> constructorTwin
   \<and> g_productName constructorGroup = g_productName constructorTwin
   \<and> (\<exists>ruleId. findMatchingRule asciiRuntime scenarioO1 [constructorGroup, constructorTwin]
         = Some (constructorGroup, ruleId))
   \<and> (\<exists>ruleId. findMatchingRule asciiRuntime scenarioO3 [constructorGroup, constructorTwin]
         = Some (constructorTwin, ruleId))
   \<and> processOrders asciiRuntime [scenarioO1, scenarioO3] [constructorGroup, constructorTwin] = []"
  by (simp add: scenario_defs constructorTwin_def engine_defs)

subsection \<open>The aggregation pass\<close>

lemma binary64_exact: "\<bar>x\<bar> < 2 ^ 53 \<Longrightarrow> binary64 x = x"
  by (simp add: binary64_def)

lemma resolveWeight_nonzeroWeight: "resolveWeight rule ruleId = nonzeroWeight rule ruleId"
  by (simp add: resolveWeight_def nonzeroWeight_def ruleWeightAt_def truthy_def Let_def
      split: option.splits)

lemma addMatched_fields:
  "\<bar>o_quantity order * w\<bar> < 2 ^ 53 \<Longrightarrow>
     p_quantity (addMatched order w row) = binary64 (p_quantity row + o_quantity order * w)"
  "p_orderCount (addMatched order w row) = binary64 (p_orderCount row + 1)"
  "p_isMatched (addMatched order w row) = p_isMatched row"
  "p_printName (addMatched order w row) = p_printName row"
  by (simp_all add: addMatched_def Let_def binary64_exact)

lemma addUnmatched_fields:
  "p_quantity (addUnmatched order row) = binary64 (p_quantity row + o_quantity order)"
  "p_orderCount (addUnmatched order row) = binary64 (p_orderCount row + 1)"
  "p_isMatched (addUnmatched order row) = p_isMatched row"
  "p_printName (addUnmatched order row) = p_printName row"
  by (simp_all add: addUnmatched_def)

lemma processOrder_step:
  "\<exists>fresh upd.
     processOrder rt gs acc order = accumulate (orderKey rt gs order) fresh upd acc
     \<and> p_quantity fresh = 0 \<and> p_orderCount fresh = 0
     \<and> (p_isMatched fresh \<longrightarrow> p_printName fresh = orderKey rt gs order)
     \<and> (\<forall>row. (\<bar>o_quantity order * orderWeightBy nonzeroWeight rt gs order\<bar> < 2 ^ 53 \<longrightarrow>
                 p_quantity (upd row) =
                   binary64 (p_quantity row
                             + o_quantity order * orderWeightBy nonzeroWeight rt gs order))
            \<and> p_orderCount (upd row) = binary64 (p_orderCount row + 1)
            \<and> p_isMatched (upd row) = p_isMatched row
            \<and> p_printName (upd row) = p_printName row)"
proof (cases "findMatchingRule rt order gs")
  case None
  let ?key = "unmatchedPrefix @ createOrderIdentifier rt order"
  have "processOrder rt gs acc order =
      accumulate (orderKey rt gs order) (newUnmatchedRow ?key order) (addUnmatched order) acc"
    using None by (simp add: processOrder_def orderKey_def Let_def)
  moreover have "p_quantity (newUnmatchedRow ?key order) = 0"
    "p_orderCount (newUnmatchedRow ?key order) = 0"
    "\<not> p_isMatched (newUnmatchedRow ?key order)"
    by (simp_all add: newUnmatchedRow_def Let_def)
  moreover have "orderWeightBy nonzeroWeight rt gs order = 1"
    using None by (simp add: orderWeightBy_def)
  ultimately show ?thesis
    by (intro exI [of _ "newUnmatchedRow ?key order"] exI [of _ "addUnmatched order"])
      (simp add: addUnmatched_fields)
next
  case (Some m)
  obtain rule ruleId where m: "m = (rule, ruleId)" by (cases m)
  have "processOrder rt gs acc order =
      accumulate (orderKey rt gs order) (newMatchedRow rule)
        (addMatched order (resolveWeight rule ruleId)) acc"
    using Some m by (simp add: processOrder_def orderKey_def Let_def)
  moreover have "p_quantity (newMatchedRow rule) = 0" "p_orderCount (newMatchedRow rule) = 0"
    "p_printName (newMatchedRow rule) = orderKey rt gs order"
    using Some m by (simp_all add: newMatchedRow_def orderKey_def)
  moreover have "orderWeightBy nonzeroWeight rt gs order = resolveWeight rule ruleId"
    using Some m by (simp add: orderWeightBy_def resolveWeight_nonzeroWeight)
  ultimately show ?thesis
    by (intro exI [of _ "newMatchedRow rule"]
        exI [of _ "addMatched order (resolveWeight rule ruleId)"])
      (simp add: addMatched_fields)
qed

lemma distinct_accumulate:
  "distinct (map fst acc) \<Longrightarrow> distinct (map fst (accumulate k fresh upd acc))"
  by (auto simp: accumulate_def AList.distinct_update map_of_eq_None_iff split: option.splits)

lemma map_of_accumulate:
  "map_of (accumulate k fresh upd acc) k' =
     (if k' = k
      then (case map_of acc k of
              Some row \<Rightarrow> Some (upd row)
            | None \<Rightarrow> if k \<in> set objectPrototypeKeys then None else Some (upd fresh))
      else map_of acc k')"
  by (auto simp: accumulate_def AList.update_conv' map_add_def split: option.splits)

lemma rowsAccountFor_step:
  assumes inv: "rowsAccountFor rt gs os acc"
  shows "rowsAccountFor rt gs (os @ [order]) (processOrder rt gs acc order)"
proof -
  obtain fresh upd where
    step: "processOrder rt gs acc order = accumulate (orderKey rt gs order) fresh upd acc"
    and fresh: "p_isMatched fresh \<longrightarrow> p_printName fresh = orderKey rt gs order"
    and upd: "\<And>row. p_isMatched (upd row) = p_isMatched row"
      "\<And>row. p_printName (upd row) = p_printName row"
    using processOrder_step [of rt gs acc order] by blast
  let ?k0 = "orderKey rt gs order"
  let ?acc' = "accumulate ?k0 fresh upd acc"
  from inv have d: "distinct (map fst acc)"
    and some: "\<And>k row. map_of acc k = Some row \<Longrightarrow>
           k \<notin> set objectPrototypeKeys \<and> (p_isMatched row \<longrightarrow> p_printName row = k)"
    and none: "\<And>k. map_of acc k = None \<Longrightarrow> k \<notin> set objectPrototypeKeys \<Longrightarrow>
           filter (\<lambda>x. orderKey rt gs x = k) os = []"
    unfolding rowsAccountFor_def by blast+
  have 1: "distinct (map fst ?acc')" using d by (rule distinct_accumulate)
  have 2: "k \<notin> set objectPrototypeKeys \<and> (p_isMatched row \<longrightarrow> p_printName row = k)"
    if r: "map_of ?acc' k = Some row" for k row
  proof (cases "k = ?k0")
    case False
    with r have "map_of acc k = Some row" by (simp add: map_of_accumulate)
    from some [OF this] show ?thesis .
  next
    case True
    show ?thesis
    proof (cases "map_of acc ?k0")
      case (Some old)
      with r True have row: "row = upd old" by (simp add: map_of_accumulate)
      from some [OF Some] True show ?thesis by (simp add: row upd)
    next
      case None
      with r True have ni: "?k0 \<notin> set objectPrototypeKeys" and row: "row = upd fresh"
        by (auto simp: map_of_accumulate split: if_splits)
      from True ni fresh show ?thesis by (simp add: row upd)
    qed
  qed
  have 3: "filter (\<lambda>x. orderKey rt gs x = k) (os @ [order]) = []"
    if n: "map_of ?acc' k = None" and ni: "k \<notin> set objectPrototypeKeys" for k
  proof -
    from n ni have ne: "k \<noteq> ?k0"
      by (auto simp: map_of_accumulate split: option.splits if_splits)
    with n have "map_of acc k = None" by (simp add: map_of_accumulate)
    from none [OF this ni] ne show ?thesis by auto
  qed
  show ?thesis
    unfolding rowsAccountFor_def step using 1 2 3 by blast
qed

lemma rowsAccountFor_aggregate: "rowsAccountFor rt gs os (aggregate rt os gs)"
proof (induction os rule: rev_induct)
  case Nil
  show ?case by (simp add: rowsAccountFor_def aggregate_def)
next
  case (snoc order os)
  from rowsAccountFor_step [OF snoc.IH, of order] show ?case
    by (simp add: aggregate_def)
qed

lemma no_order_before_first_row:
  assumes "map_of (aggregate rt os gs) k = None" and "k \<notin> set objectPrototypeKeys"
  shows "filter (\<lambda>x. orderKey rt gs x = k) os = []"
  using rowsAccountFor_aggregate [of rt gs os] assms unfolding rowsAccountFor_def by blast



text \<open>Below \<open>2^53\<close> orders the count of a row is the number of orders filed under its key.\<close>

lemma rowsCount_aggregate:
  "int (length os) < 2 ^ 53 \<Longrightarrow>
   map_of (aggregate rt os gs) k = Some row \<Longrightarrow>
   p_orderCount row = int (length (filter (\<lambda>x. orderKey rt gs x = k) os))"
proof (induction os arbitrary: k row rule: rev_induct)
  case Nil
  then show ?case by (simp add: aggregate_def)
next
  case (snoc order os)
  let ?acc = "aggregate rt os gs"
  let ?k0 = "orderKey rt gs order"
  from snoc.prems(1) have before: "int (length os) < 2 ^ 53"
    and total: "int (length os) + 1 < 2 ^ 53" by simp_all
  obtain fresh upd where
    step: "processOrder rt gs ?acc order = accumulate ?k0 fresh upd ?acc"
    and fresh: "p_orderCount fresh = 0"
    and upd: "\<And>old. p_orderCount (upd old) = binary64 (p_orderCount old + 1)"
    using processOrder_step [of rt gs ?acc order] by blast
  have agg: "aggregate rt (os @ [order]) gs = accumulate ?k0 fresh upd ?acc"
    by (simp add: aggregate_def step [unfolded aggregate_def])
  from snoc.prems(2) have r: "map_of (accumulate ?k0 fresh upd ?acc) k = Some row"
    by (simp only: agg)
  show ?case
  proof (cases "k = ?k0")
    case False
    with r have "map_of ?acc k = Some row" by (simp add: map_of_accumulate)
    from snoc.IH [OF before this] False show ?thesis by simp
  next
    case True
    show ?thesis
    proof (cases "map_of ?acc ?k0")
      case (Some old)
      with r True have row: "row = upd old" by (simp add: map_of_accumulate)
      from snoc.IH [OF before Some]
      have old: "p_orderCount old = int (length (filter (\<lambda>x. orderKey rt gs x = ?k0) os))" .
      have "length (filter (\<lambda>x. orderKey rt gs x = ?k0) os) \<le> length os"
        by (rule length_filter_le)
      with old total have "\<bar>p_orderCount old + 1\<bar> < 2 ^ 53" by linarith
      then have "binary64 (p_orderCount old + 1) = p_orderCount old + 1"
        by (rule binary64_exact)
      with old True show ?thesis by (simp add: row upd)
    next
      case None
      with r True have ni: "?k0 \<notin> set objectPrototypeKeys" and row: "row = upd fresh"
        by (auto simp: map_of_accumulate split: if_splits)
      from no_order_before_first_row [OF None ni]
      have empty: "filter (\<lambda>x. orderKey rt gs x = ?k0) os = []" .
      have "binary64 (0 + 1) = 0 + 1" by (intro binary64_exact) simp
      with empty True fresh show ?thesis by (simp add: row upd)
    qed
  qed
qed

lemma mset_insertRow: "mset (insertRow cmp x xs) = add_mset x (mset xs)"
  by (induction xs) auto

lemma mset_sortRows: "mset (sortRows cmp xs) = mset xs"
  by (induction xs) (auto simp: sortRows_def mset_insertRow)

lemma mset_objectValues: "mset (objectValues obj) = mset (map snd obj)"
proof -
  have "mset (filter (\<lambda>(k, v). arrayIndex k \<noteq> None) obj)
      + mset (filter (\<lambda>(k, v). arrayIndex k = None) obj) = mset obj"
    by (induction obj) auto
  then have "image_mset snd (mset (filter (\<lambda>(k, v). arrayIndex k \<noteq> None) obj))
      + image_mset snd (mset (filter (\<lambda>(k, v). arrayIndex k = None) obj)) = image_mset snd (mset obj)"
    by (metis image_mset_union)
  then show ?thesis by (simp add: objectValues_def)
qed

lemma mset_processOrders:
  "mset (processOrders rt os gs) = mset (map snd (aggregate rt os gs))"
  by (simp add: processOrders_def mset_sortRows mset_objectValues)

lemma set_processOrders:
  "set (processOrders rt os gs) = snd ` set (aggregate rt os gs)"
proof -
  have "set_mset (mset (processOrders rt os gs)) = set_mset (mset (map snd (aggregate rt os gs)))"
    by (simp only: mset_processOrders)
  then show ?thesis by simp
qed









subsection \<open>Output order\<close>

lemma set_insertRow: "set (insertRow cmp x xs) = insert x (set xs)"
  by (induction xs) auto

lemma sorted_insertRow:
  assumes total: "\<And>a b. cmp a b \<le> 0 \<or> cmp b a \<le> 0"
    and trans: "\<And>a b c. cmp a b \<le> 0 \<Longrightarrow> cmp b c \<le> 0 \<Longrightarrow> cmp a c \<le> 0"
  shows "sorted_wrt (\<lambda>a b. cmp a b \<le> 0) xs \<Longrightarrow> sorted_wrt (\<lambda>a b. cmp a b \<le> 0) (insertRow cmp x xs)"
proof (induction xs)
  case Nil
  show ?case by simp
next
  case (Cons y ys)
  show ?case
  proof (cases "cmp x y \<le> 0")
    case True
    with Cons.prems trans [of x y] show ?thesis by auto
  next
    case False
    with total [of x y] have "cmp y x \<le> 0" by simp
    with False Cons show ?thesis by (auto simp: set_insertRow)
  qed
qed

lemma sorted_sortRows:
  assumes "\<And>a b. cmp a b \<le> 0 \<or> cmp b a \<le> 0"
    and "\<And>a b c. cmp a b \<le> 0 \<Longrightarrow> cmp b c \<le> 0 \<Longrightarrow> cmp a c \<le> 0"
  shows "sorted_wrt (\<lambda>a b. cmp a b \<le> 0) (sortRows cmp xs)"
proof (induction xs)
  case Nil
  show ?case by (simp add: sortRows_def)
next
  case (Cons x xs)
  from sorted_insertRow [of cmp "sortRows cmp xs" x, OF assms Cons.IH]
  show ?case by (simp add: sortRows_def)
qed

lemma rowCompare_total:
  assumes "\<forall>a b. localeCompare rt a b \<le> 0 \<or> localeCompare rt b a \<le> 0"
  shows "rowCompare rt a b \<le> 0 \<or> rowCompare rt b a \<le> 0"
proof -
  from assms have "localeCompare rt (p_printName a) (p_printName b) \<le> 0
      \<or> localeCompare rt (p_printName b) (p_printName a) \<le> 0" by blast
  then show ?thesis by (auto simp: rowCompare_def)
qed

lemma rowCompare_trans:
  assumes "\<forall>a b c. localeCompare rt a b \<le> 0 \<and> localeCompare rt b c \<le> 0
             \<longrightarrow> localeCompare rt a c \<le> 0"
    and ab: "rowCompare rt a b \<le> 0" and bc: "rowCompare rt b c \<le> 0"
  shows "rowCompare rt a c \<le> 0"
proof -
  from assms(1) have l: "localeCompare rt (p_printName a) (p_printName b) \<le> 0 \<Longrightarrow>
      localeCompare rt (p_printName b) (p_printName c) \<le> 0 \<Longrightarrow>
      localeCompare rt (p_printName a) (p_printName c) \<le> 0" by blast
  show ?thesis
  proof (cases "p_isMatched a")
    case True
    note a = this
    show ?thesis
    proof (cases "p_isMatched c")
      case True
      with a ab bc have "p_isMatched b" by (simp add: rowCompare_def split: if_splits)
      with a True ab bc l show ?thesis by (simp add: rowCompare_def)
    next
      case False
      with a show ?thesis by (simp add: rowCompare_def)
    qed
  next
    case False
    note a = this
    with ab have b: "\<not> p_isMatched b" by (simp add: rowCompare_def split: if_splits)
    with bc have c: "\<not> p_isMatched c" by (simp add: rowCompare_def split: if_splits)
    from a b c ab bc l show ?thesis by (simp add: rowCompare_def)
  qed
qed

lemma sorted_split:
  assumes "sorted_wrt R xs" and "\<And>a b. R a b \<Longrightarrow> P b \<Longrightarrow> P a"
  shows "xs = filter P xs @ filter (\<lambda>x. \<not> P x) xs"
  using assms(1)
proof (induction xs)
  case Nil
  show ?case by simp
next
  case (Cons x xs)
  show ?case
  proof (cases "P x")
    case True
    with Cons show ?thesis by simp
  next
    case False
    with Cons.prems assms(2) have "\<forall>y \<in> set xs. \<not> P y" by auto
    then have "filter P xs = []" "filter (\<lambda>x. \<not> P x) xs = xs" by (simp_all add: filter_empty_conv)
    with False show ?thesis by simp
  qed
qed

text \<open>
  C7. For a consistent \<^verbatim>\<open>localeCompare\<close> (total and transitive, as a collation is)
  the output of \<^verbatim>\<open>processOrders\<close> is a block of Matched rows followed by a block of
  Unmatched rows, and within each block every row's display name compares less than or
  equal to that of every later row under \<^verbatim>\<open>localeCompare\<close>. The comparison is the
  runtime's, a parameter of the model, not the order of the code units.
\<close>

theorem processOrders_ordering:
  assumes total: "\<forall>a b. localeCompare rt a b \<le> 0 \<or> localeCompare rt b a \<le> 0"
    and trans: "\<forall>a b c. localeCompare rt a b \<le> 0 \<and> localeCompare rt b c \<le> 0
                  \<longrightarrow> localeCompare rt a c \<le> 0"
  shows "\<exists>matched unmatched.
           processOrders rt orders ruleGroups = matched @ unmatched
           \<and> (\<forall>r \<in> set matched. p_isMatched r) \<and> (\<forall>r \<in> set unmatched. \<not> p_isMatched r)
           \<and> sorted_wrt (\<lambda>a b. localeCompare rt (p_printName a) (p_printName b) \<le> 0) matched
           \<and> sorted_wrt (\<lambda>a b. localeCompare rt (p_printName a) (p_printName b) \<le> 0) unmatched"
proof -
  let ?out = "processOrders rt orders ruleGroups"
  let ?R = "\<lambda>a b. rowCompare rt a b \<le> 0"
  let ?L = "\<lambda>a b. localeCompare rt (p_printName a) (p_printName b) \<le> 0"
  have t: "\<And>a b. rowCompare rt a b \<le> 0 \<or> rowCompare rt b a \<le> 0"
    using total by (rule rowCompare_total)
  have tr: "\<And>a b c. rowCompare rt a b \<le> 0 \<Longrightarrow> rowCompare rt b c \<le> 0 \<Longrightarrow> rowCompare rt a c \<le> 0"
    using trans by (rule rowCompare_trans)
  have s: "sorted_wrt ?R ?out"
    unfolding processOrders_def using t tr by (rule sorted_sortRows)
  have "\<And>a b. ?R a b \<Longrightarrow> p_isMatched b \<Longrightarrow> p_isMatched a"
    by (auto simp: rowCompare_def split: if_splits)
  with s have split: "?out = filter p_isMatched ?out @ filter (\<lambda>r. \<not> p_isMatched r) ?out"
    by (rule sorted_split)
  have m: "sorted_wrt ?L (filter p_isMatched ?out)"
  proof -
    have "sorted_wrt ?R (filter p_isMatched ?out)" using s by (rule sorted_wrt_filter)
    then show ?thesis
      by (rule sorted_wrt_mono_rel [rotated]) (auto simp: rowCompare_def)
  qed
  have u: "sorted_wrt ?L (filter (\<lambda>r. \<not> p_isMatched r) ?out)"
  proof -
    have "sorted_wrt ?R (filter (\<lambda>r. \<not> p_isMatched r) ?out)" using s by (rule sorted_wrt_filter)
    then show ?thesis
      by (rule sorted_wrt_mono_rel [rotated]) (auto simp: rowCompare_def)
  qed
  from split m u show ?thesis
    by (intro exI [of _ "filter p_isMatched ?out"] exI [of _ "filter (\<lambda>r. \<not> p_isMatched r) ?out"])
      simp
qed

lemma codeUnitCompare_total: "codeUnitCompare a b \<le> 0 \<or> codeUnitCompare b a \<le> 0"
proof (induction a arbitrary: b)
  case Nil
  show ?case by (cases b) simp_all
next
  case (Cons x xs)
  show ?case
  proof (cases b)
    case Nil
    then show ?thesis by simp
  next
    case (Cons y ys)
    consider (lt) "x < y" | (gt) "y < x" | (eq) "x = y" by linarith
    then show ?thesis
    proof cases
      case lt
      with Cons show ?thesis by simp
    next
      case gt
      with Cons show ?thesis by simp
    next
      case eq
      with Cons Cons.IH [of ys] show ?thesis by simp
    qed
  qed
qed

lemma codeUnitCompare_trans:
  "codeUnitCompare a b \<le> 0 \<Longrightarrow> codeUnitCompare b c \<le> 0 \<Longrightarrow> codeUnitCompare a c \<le> 0"
proof (induction a arbitrary: b c)
  case Nil
  show ?case by (cases c) simp_all
next
  case (Cons x xs)
  from Cons.prems(1) obtain y ys where b: "b = y # ys"
    by (cases b) simp_all
  from Cons.prems(2) b obtain z zs where c: "c = z # zs"
    by (cases c) simp_all
  from Cons.prems(1) b have xy: "x < y \<or> (x = y \<and> codeUnitCompare xs ys \<le> 0)"
    by (simp split: if_splits)
  from Cons.prems(2) b c have yz: "y < z \<or> (y = z \<and> codeUnitCompare ys zs \<le> 0)"
    by (simp split: if_splits)
  from xy yz have "x < z \<or> (x = z \<and> codeUnitCompare xs ys \<le> 0 \<and> codeUnitCompare ys zs \<le> 0)"
    by linarith
  then show ?case
  proof
    assume "x < z"
    then show ?thesis by (simp add: c)
  next
    assume "x = z \<and> codeUnitCompare xs ys \<le> 0 \<and> codeUnitCompare ys zs \<le> 0"
    then have "x = z" and "codeUnitCompare xs zs \<le> 0" using Cons.IH [of ys zs] by simp_all
    then show ?thesis by (simp add: c)
  qed
qed

theorem processOrders_ordering_witness:
  "(\<exists>matched unmatched.
      processOrders asciiRuntime [zedOrder, scenarioO1, abeOrder, scenarioO3] [scenarioR1, alphaGroup]
        = matched @ unmatched
      \<and> (\<forall>r \<in> set matched. p_isMatched r) \<and> (\<forall>r \<in> set unmatched. \<not> p_isMatched r)
      \<and> sorted_wrt (\<lambda>a b. localeCompare asciiRuntime (p_printName a) (p_printName b) \<le> 0) matched
      \<and> sorted_wrt (\<lambda>a b. localeCompare asciiRuntime (p_printName a) (p_printName b) \<le> 0) unmatched)
   \<and> map (\<lambda>r. (p_isMatched r, p_printName r))
        (processOrders asciiRuntime [zedOrder, scenarioO1, abeOrder, scenarioO3] [scenarioR1, alphaGroup])
      = [(True, ascii ''alpha''), (True, ascii ''Widgets''),
         (False, ascii ''abe / Thing''), (False, ascii ''Zed / Thing'')]"
proof -
  have total: "\<forall>a b. localeCompare asciiRuntime a b \<le> 0 \<or> localeCompare asciiRuntime b a \<le> 0"
    by (simp add: asciiRuntime_def codeUnitCompare_total)
  have trans: "\<forall>a b c. localeCompare asciiRuntime a b \<le> 0 \<and> localeCompare asciiRuntime b c \<le> 0
      \<longrightarrow> localeCompare asciiRuntime a c \<le> 0"
    using codeUnitCompare_trans by (auto simp: asciiRuntime_def)
  have "map (\<lambda>r. (p_isMatched r, p_printName r))
        (processOrders asciiRuntime [zedOrder, scenarioO1, abeOrder, scenarioO3] [scenarioR1, alphaGroup])
      = [(True, ascii ''alpha''), (True, ascii ''Widgets''),
         (False, ascii ''abe / Thing''), (False, ascii ''Zed / Thing'')]"
    by (simp add: scenario_defs zedOrder_def abeOrder_def alphaGroup_def engine_defs)
  with processOrders_ordering [OF total trans,
      of "[zedOrder, scenarioO1, abeOrder, scenarioO3]" "[scenarioR1, alphaGroup]"]
  show ?thesis by blast
qed

subsection \<open>Order counts and shared rows away from inherited names\<close>

text \<open>
  For fewer than \<open>2^53\<close> orders, the order counts of the output sum to the number of
  orders whose key is not a name inherited from \<^verbatim>\<open>Object.prototype\<close>; when no group
  bears such a name this is the number of input orders. Orders matched to groups of one
  name are filed under one key, and when the name is not inherited that key has a row
  which counts them all.
\<close>

lemma sum_list_update:
  fixes f :: "'v \<Rightarrow> int"
  shows "map_of acc k = Some row \<Longrightarrow>
     (\<Sum>p\<leftarrow>AList.update k v acc. f (snd p)) = (\<Sum>p\<leftarrow>acc. f (snd p)) - f row + f v"
  by (induction acc) auto

lemma orderCount_aggregate:
  "int (length os) < 2 ^ 53 \<Longrightarrow>
   (\<Sum>p\<leftarrow>aggregate rt os gs. p_orderCount (snd p)) =
     int (length (filter (\<lambda>x. orderKey rt gs x \<notin> set objectPrototypeKeys) os))"
proof (induction os rule: rev_induct)
  case Nil
  show ?case by (simp add: aggregate_def)
next
  case (snoc order os)
  let ?acc = "aggregate rt os gs"
  let ?k0 = "orderKey rt gs order"
  from snoc.prems have before: "int (length os) < 2 ^ 53"
    and total: "int (length os) + 1 < 2 ^ 53" by simp_all
  note IH = snoc.IH [OF before]
  obtain fresh upd where
    step: "processOrder rt gs ?acc order = accumulate ?k0 fresh upd ?acc"
    and fresh: "p_orderCount fresh = 0"
    and upd: "\<And>old. p_orderCount (upd old) = binary64 (p_orderCount old + 1)"
    using processOrder_step [of rt gs ?acc order] by blast
  have agg: "aggregate rt (os @ [order]) gs = accumulate ?k0 fresh upd ?acc"
    by (simp add: aggregate_def step [unfolded aggregate_def])
  have inv: "rowsAccountFor rt gs os ?acc" by (rule rowsAccountFor_aggregate)
  show ?case
  proof (cases "map_of ?acc ?k0")
    case (Some old)
    with inv have ni: "?k0 \<notin> set objectPrototypeKeys" unfolding rowsAccountFor_def by blast
    from rowsCount_aggregate [OF before Some]
    have old: "p_orderCount old = int (length (filter (\<lambda>x. orderKey rt gs x = ?k0) os))" .
    have "length (filter (\<lambda>x. orderKey rt gs x = ?k0) os) \<le> length os"
      by (rule length_filter_le)
    with old total have "\<bar>p_orderCount old + 1\<bar> < 2 ^ 53" by linarith
    then have exact: "p_orderCount (upd old) = p_orderCount old + 1"
      by (simp add: upd binary64_exact)
    have "(\<Sum>p\<leftarrow>accumulate ?k0 fresh upd ?acc. p_orderCount (snd p))
        = (\<Sum>p\<leftarrow>?acc. p_orderCount (snd p)) + 1"
      using Some exact by (simp add: accumulate_def sum_list_update)
    with IH ni show ?thesis by (simp add: agg)
  next
    case None
    show ?thesis
    proof (cases "?k0 \<in> set objectPrototypeKeys")
      case True
      with None have "accumulate ?k0 fresh upd ?acc = ?acc" by (simp add: accumulate_def)
      with IH True show ?thesis by (simp add: agg)
    next
      case False
      have "p_orderCount (upd fresh) = 1"
        by (simp add: upd fresh binary64_exact)
      with None False have "(\<Sum>p\<leftarrow>accumulate ?k0 fresh upd ?acc. p_orderCount (snd p))
          = (\<Sum>p\<leftarrow>?acc. p_orderCount (snd p)) + 1"
        by (simp add: accumulate_def)
      with IH False show ?thesis by (simp add: agg)
    qed
  qed
qed

lemma sum_list_map_cong_mset:
  fixes f :: "'a \<Rightarrow> int"
  shows "mset xs = mset ys \<Longrightarrow> sum_list (map f xs) = sum_list (map f ys)"
  by (metis mset_map sum_mset_sum_list)

lemma orderCount_total:
  assumes "int (length os) < 2 ^ 53"
  shows "sum_list (map p_orderCount (processOrders rt os gs)) =
     int (length (filter (\<lambda>x. orderKey rt gs x \<notin> set objectPrototypeKeys) os))"
proof -
  have "sum_list (map p_orderCount (processOrders rt os gs))
      = sum_list (map p_orderCount (map snd (aggregate rt os gs)))"
    by (rule sum_list_map_cong_mset) (rule mset_processOrders)
  also have "\<dots> = (\<Sum>p\<leftarrow>aggregate rt os gs. p_orderCount (snd p))"
    by (simp add: comp_def)
  finally show ?thesis by (simp only: orderCount_aggregate [OF assms])
qed

lemma scanGroups_member: "scanGroups i gs = Some (g, r) \<Longrightarrow> g \<in> set gs"
  by (induction gs) (auto split: if_splits)

lemma inherited_names_ascii: "k \<in> set objectPrototypeKeys \<Longrightarrow> k \<noteq> [] \<and> hd k < 128"
  by (auto simp: objectPrototypeKeys_def ascii_def)

lemma unmatched_key_not_inherited: "unmatchedPrefix @ i \<notin> set objectPrototypeKeys"
  using inherited_names_ascii [of "unmatchedPrefix @ i"] by (auto simp: unmatchedPrefix_def)

lemma orderCount_total_plain_names:
  assumes "\<forall>g \<in> set gs. g_productName g \<notin> set objectPrototypeKeys"
    and "int (length os) < 2 ^ 53"
  shows "sum_list (map p_orderCount (processOrders rt os gs)) = int (length os)"
proof -
  have "orderKey rt gs x \<notin> set objectPrototypeKeys" for x
  proof (cases "findMatchingRule rt x gs")
    case None
    then show ?thesis by (simp add: orderKey_def unmatched_key_not_inherited)
  next
    case (Some m)
    obtain g r where m: "m = (g, r)" by (cases m)
    with Some have "g \<in> set gs" by (auto simp: findMatchingRule_def dest: scanGroups_member)
    with assms(1) Some m show ?thesis by (simp add: orderKey_def)
  qed
  then show ?thesis by (simp add: orderCount_total [OF assms(2)])
qed

lemma same_name_groups_share_row:
  assumes m1: "findMatchingRule rt o1 gs = Some (g1, i1)"
    and m2: "findMatchingRule rt o2 gs = Some (g2, i2)"
    and same: "g_productName g1 = g_productName g2"
    and mem: "o1 \<in> set os"
    and plain: "g_productName g1 \<notin> set objectPrototypeKeys"
    and few: "int (length os) < 2 ^ 53"
  shows "orderKey rt gs o1 = orderKey rt gs o2"
    and "\<exists>row \<in> set (processOrders rt os gs).
           map_of (aggregate rt os gs) (g_productName g1) = Some row
           \<and> p_orderCount row
               = int (length (filter (\<lambda>x. orderKey rt gs x = g_productName g1) os))"
proof -
  from m1 m2 same show "orderKey rt gs o1 = orderKey rt gs o2" by (simp add: orderKey_def)
  let ?k = "g_productName g1"
  from m1 have k1: "orderKey rt gs o1 = ?k" by (simp add: orderKey_def)
  from mem k1 have ne: "filter (\<lambda>x. orderKey rt gs x = ?k) os \<noteq> []"
    by (auto simp: filter_empty_conv)
  with no_order_before_first_row [of rt os gs ?k] plain
  obtain row where row: "map_of (aggregate rt os gs) ?k = Some row"
    by (cases "map_of (aggregate rt os gs) ?k") auto
  then have "(?k, row) \<in> set (aggregate rt os gs)" by (rule map_of_SomeD)
  then have "row \<in> set (processOrders rt os gs)" by (force simp: set_processOrders)
  moreover from rowsCount_aggregate [OF few row] have "p_orderCount row
      = int (length (filter (\<lambda>x. orderKey rt gs x = ?k) os))" .
  ultimately show "\<exists>row \<in> set (processOrders rt os gs).
           map_of (aggregate rt os gs) ?k = Some row
           \<and> p_orderCount row = int (length (filter (\<lambda>x. orderKey rt gs x = ?k) os))"
    using row by blast
qed

subsection \<open>Rule creation\<close>

text \<open>
  In creation mode \<^verbatim>\<open>handleRuleCreate\<close> adds no group when a group of the new name
  exists: the first such group receives the new identifier, and the names and ids of
  the list stay as they are. Otherwise the new group is appended.
\<close>

lemma findIndexByName_Some:
  "findIndexByName name gs = Some i \<Longrightarrow>
     i < length gs \<and> g_productName (gs ! i) = name \<and> (\<forall>j < i. g_productName (gs ! j) \<noteq> name)"
proof (induction gs arbitrary: i)
  case Nil
  then show ?case by simp
next
  case (Cons g gs)
  show ?case
  proof (cases "g_productName g = name")
    case True
    with Cons.prems show ?thesis by simp
  next
    case False
    with Cons.prems obtain i' where i': "findIndexByName name gs = Some i'" "i = Suc i'"
      by auto
    from Cons.IH [OF i'(1)] False i'(2) show ?thesis
      by (auto simp: less_Suc_eq_0_disj)
  qed
qed

lemma findIndexByName_None:
  "findIndexByName name gs = None \<longleftrightarrow> (\<forall>g \<in> set gs. g_productName g \<noteq> name)"
  by (induction gs) auto

lemma mergeIdentifier_fields:
  "g_productName (mergeIdentifier new ident existing) = g_productName existing"
  "g_id (mergeIdentifier new ident existing) = g_id existing"
  "set (g_rules (mergeIdentifier new ident existing)) = insert ident (set (g_rules existing))"
  "distinct (g_rules existing) \<Longrightarrow> distinct (g_rules (mergeIdentifier new ident existing))"
  by (auto simp: mergeIdentifier_def Let_def)

lemma handleRuleCreate_merges:
  assumes create: "\<not> isEditMode \<or> selectedRuleForEdit = None"
    and found: "findIndexByName (g_productName newRuleGroup) matchingRules = Some i"
    and ident: "g_rules newRuleGroup = newIdentifier # others"
  shows "\<exists>updatedRules.
           handleRuleCreate isEditMode selectedRuleForEdit matchingRules newRuleGroup = Some updatedRules
           \<and> length updatedRules = length matchingRules
           \<and> map g_productName updatedRules = map g_productName matchingRules
           \<and> map g_id updatedRules = map g_id matchingRules
           \<and> newIdentifier \<in> set (g_rules (updatedRules ! i))
           \<and> set (g_rules (matchingRules ! i)) \<subseteq> set (g_rules (updatedRules ! i))"
proof -
  let ?m = "mergeIdentifier newRuleGroup newIdentifier (matchingRules ! i)"
  from findIndexByName_Some [OF found] have i: "i < length matchingRules" by simp
  from create found ident
  have "handleRuleCreate isEditMode selectedRuleForEdit matchingRules newRuleGroup
      = Some (matchingRules[i := ?m])"
    by (cases isEditMode; cases selectedRuleForEdit) (simp_all add: handleRuleCreate_def)
  moreover have "map g_productName (matchingRules[i := ?m]) = map g_productName matchingRules"
    "map g_id (matchingRules[i := ?m]) = map g_id matchingRules"
    using i by (simp_all add: map_update mergeIdentifier_fields list_update_same_conv)
  ultimately show ?thesis using i by (simp add: mergeIdentifier_fields subset_insertI)
qed

lemma handleRuleCreate_appends:
  assumes "\<not> isEditMode \<or> selectedRuleForEdit = None"
    and "\<forall>g \<in> set matchingRules. g_productName g \<noteq> g_productName newRuleGroup"
  shows "handleRuleCreate isEditMode selectedRuleForEdit matchingRules newRuleGroup
           = Some (matchingRules @ [newRuleGroup])"
proof -
  from assms(2) have "findIndexByName (g_productName newRuleGroup) matchingRules = None"
    by (simp add: findIndexByName_None)
  with assms(1) show ?thesis
    by (cases isEditMode; cases selectedRuleForEdit) (simp_all add: handleRuleCreate_def)
qed

end
